theory Spec2Isabelle
  imports Main "HOL-Library.Word" "HOL-Library.Signed_Division"
begin

unbundle bit_operations_syntax

section \<open>Bytes and SHA-256\<close>

text \<open>
  The Go code hashes with \<^verbatim>\<open>crypto/sha256\<close> (\<^verbatim>\<open>sha256.New()\<close>, \<^verbatim>\<open>Write\<close>,
  \<^verbatim>\<open>Sum(nil)\<close>). The digest function is written out here as an executable function on
  byte lists: constants as fractional parts of cube and square roots of the first primes,
  big-endian words, 64 rounds per 64-byte chunk. The general theorems below use only that
  a digest has 32 bytes; the concrete evaluations use the function itself.
\<close>

type_synonym byte = "8 word"
type_synonym u32 = "32 word"
type_synonym hstate = "u32 \<times> u32 \<times> u32 \<times> u32 \<times> u32 \<times> u32 \<times> u32 \<times> u32"

definition K256 :: "u32 list" where
  "K256 =
    [1116352408, 1899447441, 3049323471, 3921009573, 961987163, 1508970993,
     2453635748, 2870763221, 3624381080, 310598401, 607225278, 1426881987,
     1925078388, 2162078206, 2614888103, 3248222580, 3835390401, 4022224774,
     264347078, 604807628, 770255983, 1249150122, 1555081692, 1996064986,
     2554220882, 2821834349, 2952996808, 3210313671, 3336571891, 3584528711,
     113926993, 338241895, 666307205, 773529912, 1294757372, 1396182291,
     1695183700, 1986661051, 2177026350, 2456956037, 2730485921, 2820302411,
     3259730800, 3345764771, 3516065817, 3600352804, 4094571909, 275423344,
     430227734, 506948616, 659060556, 883997877, 958139571, 1322822218,
     1537002063, 1747873779, 1955562222, 2024104815, 2227730452, 2361852424,
     2428436474, 2756734187, 3204031479, 3329325298]"

definition H256 :: hstate where
  "H256 = (1779033703, 3144134277, 1013904242, 2773480762,
           1359893119, 2600822924, 528734635, 1541459225)"

definition rotr :: "nat \<Rightarrow> u32 \<Rightarrow> u32" where
  "rotr n x = drop_bit n x OR push_bit (32 - n) x"

definition be32 :: "byte \<Rightarrow> byte \<Rightarrow> byte \<Rightarrow> byte \<Rightarrow> u32" where
  "be32 a b c d =
     push_bit 24 (ucast a) OR push_bit 16 (ucast b) OR push_bit 8 (ucast c) OR ucast d"

fun words_of :: "byte list \<Rightarrow> u32 list" where
  "words_of (a # b # c # d # r) = be32 a b c d # words_of r"
| "words_of _ = []"

text \<open>The message schedule; the window \<open>w\<close> holds the last 16 words, oldest first.\<close>

fun schedule :: "nat \<Rightarrow> u32 list \<Rightarrow> u32 list" where
  "schedule 0 w = []"
| "schedule (Suc n) w =
    (let w15 = w ! 1; w2 = w ! 14;
         s0 = rotr 7 w15 XOR rotr 18 w15 XOR drop_bit 3 w15;
         s1 = rotr 17 w2 XOR rotr 19 w2 XOR drop_bit 10 w2;
         x = w ! 0 + s0 + w ! 9 + s1
     in x # schedule n (tl w @ [x]))"

fun round256 :: "hstate \<Rightarrow> u32 \<times> u32 \<Rightarrow> hstate" where
  "round256 (a, b, c, d, e, f, g, h) (k, w) =
    (let t1 = h + (rotr 6 e XOR rotr 11 e XOR rotr 25 e) + ((e AND f) XOR (NOT e AND g)) + k + w;
         t2 = (rotr 2 a XOR rotr 13 a XOR rotr 22 a) + ((a AND b) XOR (a AND c) XOR (b AND c))
     in (t1 + t2, a, b, c, d + t1, e, f, g))"

definition add_state :: "hstate \<Rightarrow> hstate \<Rightarrow> hstate" where
  "add_state s t =
     (case s of (a, b, c, d, e, f, g, h) \<Rightarrow>
      case t of (a', b', c', d', e', f', g', h') \<Rightarrow>
        (a + a', b + b', c + c', d + d', e + e', f + f', g + g', h + h'))"

definition compress :: "hstate \<Rightarrow> byte list \<Rightarrow> hstate" where
  "compress s chunk =
    (let w = words_of chunk; ws = w @ schedule 48 w
     in add_state s (foldl round256 s (zip K256 ws)))"

fun chunks :: "nat \<Rightarrow> byte list \<Rightarrow> byte list list" where
  "chunks 0 xs = []"
| "chunks (Suc n) xs = take 64 xs # chunks n (drop 64 xs)"

definition be_bytes32 :: "u32 \<Rightarrow> byte list" where
  "be_bytes32 x = [ucast (drop_bit 24 x), ucast (drop_bit 16 x), ucast (drop_bit 8 x), ucast x]"

definition be_bytes64 :: "64 word \<Rightarrow> byte list" where
  "be_bytes64 x = map (\<lambda>i. ucast (drop_bit (8 * (7 - i)) x)) [0..<8]"

definition pad :: "byte list \<Rightarrow> byte list" where
  "pad m = m @ [128] @ replicate ((119 - length m mod 64) mod 64) 0
             @ be_bytes64 (8 * of_nat (length m))"

definition state_bytes :: "hstate \<Rightarrow> byte list" where
  "state_bytes s =
     (case s of (a, b, c, d, e, f, g, h) \<Rightarrow> concat (map be_bytes32 [a, b, c, d, e, f, g, h]))"

definition sha256 :: "byte list \<Rightarrow> byte list" where
  "sha256 m = (let p = pad m in state_bytes (foldl compress H256 (chunks (length p div 64) p)))"

text \<open>\<^verbatim>\<open>make([]byte, 32)\<close>: the all-zero trailer.\<close>

definition zero32 :: "byte list" where
  "zero32 = replicate 32 0"

section \<open>Errors\<close>

text \<open>
  Every error return of the code is a value. \<open>RuntimePanic\<close> stands for a Go run-time
  panic (index out of range, negative \<^verbatim>\<open>make\<close> length): the call does not return.
  \<open>ErrInvalid\<close>, \<open>ErrClosed\<close> and \<open>ErrNotExist\<close> are the errors of package \<^verbatim>\<open>os\<close>,
  \<open>EndOfStream\<close> is \<^verbatim>\<open>io.EOF\<close>.
\<close>

datatype error =
    TooShort
  | VerificationFailed
  | EndOfStream
  | NotRegular
  | CacheDirNotDir
  | AbsFailed
  | ErrNotExist
  | ErrInvalid
  | ErrClosed
  | ErrIO
  | RuntimePanic

section \<open>The decoder\<close>

text \<open>
  The comparison loop of \<^verbatim>\<open>Decode\<close>: \<^verbatim>\<open>for i := 0; i < 32; i++\<close>, reading
  \<^verbatim>\<open>clientHash[i]\<close> and \<^verbatim>\<open>hash[i]\<close>. Go checks both indexes; an index past the end of
  either slice panics.
\<close>

function compare_loop :: "nat \<Rightarrow> byte list \<Rightarrow> byte list \<Rightarrow> error option" where
  "compare_loop i clientHash hash =
     (if i < 32 then
        (if length clientHash \<le> i \<or> length hash \<le> i then Some RuntimePanic
         else if clientHash ! i \<noteq> hash ! i then Some VerificationFailed
         else compare_loop (i + 1) clientHash hash)
      else None)"
  by pat_completeness auto
termination
  by (relation "measure (\<lambda>(i, c, h). 32 - i)") auto

declare compare_loop.simps [simp del]

text \<open>
  \<^verbatim>\<open>func Decode(hash, hashedBlock []byte) (block, nextHash []byte, err error)\<close>.
  An error return carries nil slices, so the result is a sum.
\<close>

definition Decode :: "byte list \<Rightarrow> byte list \<Rightarrow> error + (byte list \<times> byte list)" where
  "Decode hash hashedBlock =
     (let hashOffset = int (length hashedBlock) - 32 in
      if hashOffset \<le> 0 then Inl TooShort
      else
        (let clientHash = sha256 hashedBlock in
         case compare_loop 0 clientHash hash of
           Some err \<Rightarrow> Inl err
         | None \<Rightarrow> Inr (take (nat hashOffset) hashedBlock, drop (nat hashOffset) hashedBlock)))"

section \<open>The file system the encoder runs on\<close>

text \<open>
  The encoder works through package \<^verbatim>\<open>os\<close>. The world holds what those calls see:
  \<^item> \<open>nodes\<close>: what \<^verbatim>\<open>os.Stat\<close> and \<^verbatim>\<open>os.Open\<close> find at \<^verbatim>\<open>Encoder.FileName\<close>;
  \<^item> \<open>abspath\<close>: \<^verbatim>\<open>filepath.Abs\<close>, which fails when the working directory is unknown;
  \<^item> \<open>cacheDirs\<close>: the cache directories by their path; \<open>True\<close> for a directory,
    \<open>False\<close> for something else at that path;
  \<^item> \<open>hashFiles\<close>: the file \<^verbatim>\<open><i>.sha256\<close> inside a cache directory, addressed by the
    directory and the block index \<open>i\<close>;
  \<^item> \<open>handles\<close>: the open files, each with its path and read offset.
  The input files are never written. Faults of the device and of the machine (permissions,
  a read interrupted before the count asked for, memory exhausted below the allocator's
  limit) are outside the model; a missing file, a file of the wrong kind, a closed handle,
  a negative offset, a read at the end of the file, a read longer than one call returns
  and an allocation past the allocator's limit behave as they do in Go.
  The \<^verbatim>\<open>int64\<close> fields are integers: sizes and offsets of a file stay below \<open>2^63\<close>.
\<close>

type_synonym path = string
type_synonym fd = nat

datatype node = RegularFile "byte list" | Directory | Special

record world =
  nodes :: "path \<rightharpoonup> node"
  abspath :: "path \<rightharpoonup> path"
  cacheDirs :: "path \<rightharpoonup> bool"
  hashFiles :: "path \<times> int \<rightharpoonup> byte list"
  handles :: "fd \<rightharpoonup> path \<times> int"
  nextFd :: fd

definition os_Stat :: "world \<Rightarrow> path \<Rightarrow> error + node" where
  "os_Stat w p = (case nodes w p of None \<Rightarrow> Inl ErrNotExist | Some n \<Rightarrow> Inr n)"

fun IsRegular :: "node \<Rightarrow> bool" where
  "IsRegular (RegularFile _) = True"
| "IsRegular _ = False"

fun Size :: "node \<Rightarrow> int" where
  "Size (RegularFile content) = int (length content)"
| "Size _ = 0"

definition os_Open :: "world \<Rightarrow> path \<Rightarrow> (error + fd) \<times> world" where
  "os_Open w p =
     (case nodes w p of
        None \<Rightarrow> (Inl ErrNotExist, w)
      | Some n \<Rightarrow>
          (Inr (nextFd w),
           w\<lparr>handles := (handles w)(nextFd w \<mapsto> (p, 0)), nextFd := nextFd w + 1\<rparr>))"

text \<open>\<^verbatim>\<open>f.Seek(offset, os.SEEK_SET)\<close> on a non-nil file.\<close>

definition file_Seek :: "world \<Rightarrow> fd \<Rightarrow> int \<Rightarrow> error option \<times> world" where
  "file_Seek w f offset =
     (case handles w f of
        None \<Rightarrow> (Some ErrClosed, w)
      | Some (p, pos) \<Rightarrow>
          if offset < 0 then (Some ErrInvalid, w)
          else (None, w\<lparr>handles := (handles w)(f \<mapsto> (p, offset))\<rparr>))"

text \<open>
  One call of \<^verbatim>\<open>(*os.File).Read\<close> returns at most \<^verbatim>\<open>maxRW\<close> = 1 GiB: package
  \<^verbatim>\<open>internal/poll\<close> cuts a longer buffer to that length before the system call.
\<close>

definition maxRW :: nat where
  "maxRW = 1073741824"

text \<open>
  \<^verbatim>\<open>f.Read(b)\<close> on a non-nil file: the buffer afterwards and the error (the code discards
  the count). A read into an empty buffer returns at once without error; a read at or
  past the end of the file is \<^verbatim>\<open>io.EOF\<close>; otherwise the bytes available, at most the
  buffer's length and at most \<open>maxRW\<close>, overwrite the front of the buffer, the rest of the
  buffer stays as it was, and the offset advances.
\<close>

definition file_Read :: "world \<Rightarrow> fd \<Rightarrow> byte list \<Rightarrow> (byte list \<times> error option) \<times> world" where
  "file_Read w f buf =
     (case handles w f of
        None \<Rightarrow> ((buf, Some ErrClosed), w)
      | Some (p, pos) \<Rightarrow>
          if buf = [] then ((buf, None), w)
          else
            (case nodes w p of
               Some (RegularFile content) \<Rightarrow>
                 if int (length content) \<le> pos then ((buf, Some EndOfStream), w)
                 else
                   (let got = take (min (length buf) maxRW) (drop (nat pos) content) in
                    ((got @ drop (length got) buf, None),
                     w\<lparr>handles := (handles w)(f \<mapsto> (p, pos + int (length got)))\<rparr>))
             | _ \<Rightarrow> ((buf, Some ErrIO), w)))"

text \<open>
  \<^verbatim>\<open>f.Close()\<close>, where \<open>f\<close> may be nil: \<^verbatim>\<open>(*os.File).Close\<close> checks its receiver and
  returns \<^verbatim>\<open>os.ErrInvalid\<close> for nil; closing a closed file is \<^verbatim>\<open>os.ErrClosed\<close>.
\<close>

definition file_Close :: "world \<Rightarrow> fd option \<Rightarrow> error option \<times> world" where
  "file_Close w fo =
     (case fo of
        None \<Rightarrow> (Some ErrInvalid, w)
      | Some f \<Rightarrow>
          (case handles w f of
             None \<Rightarrow> (Some ErrClosed, w)
           | Some _ \<Rightarrow> (None, w\<lparr>handles := (handles w)(f := None)\<rparr>)))"

definition os_MkdirAll :: "world \<Rightarrow> path \<Rightarrow> error option \<times> world" where
  "os_MkdirAll w d =
     (case cacheDirs w d of
        Some False \<Rightarrow> (Some ErrIO, w)
      | _ \<Rightarrow> (None, w\<lparr>cacheDirs := (cacheDirs w)(d \<mapsto> True)\<rparr>))"

definition os_ReadFile :: "world \<Rightarrow> path \<times> int \<Rightarrow> error + byte list" where
  "os_ReadFile w k = (case hashFiles w k of None \<Rightarrow> Inl ErrNotExist | Some d \<Rightarrow> Inr d)"

definition os_WriteFile :: "world \<Rightarrow> path \<times> int \<Rightarrow> byte list \<Rightarrow> error option \<times> world" where
  "os_WriteFile w k d =
     (if cacheDirs w (fst k) = Some True
      then (None, w\<lparr>hashFiles := (hashFiles w)(k \<mapsto> d)\<rparr>)
      else (Some ErrNotExist, w))"

text \<open>
  \<^verbatim>\<open>make([]byte, n)\<close>: \<open>n\<close> zero bytes. The run time panics (\<^verbatim>\<open>makeslice: len out of range\<close>)
  for a negative length and for a length above \<^verbatim>\<open>maxAlloc\<close>, which is \<open>2^48\<close> bytes on the
  64-bit platforms.
\<close>

definition maxAlloc :: int where
  "maxAlloc = 281474976710656"

definition make_bytes :: "int \<Rightarrow> error + byte list" where
  "make_bytes n =
     (if n < 0 \<or> maxAlloc < n then Inl RuntimePanic else Inr (replicate (nat n) 0))"

section \<open>The encoder\<close>

text \<open>
  The struct \<^verbatim>\<open>Encoder\<close>. Its field \<^verbatim>\<open>file\<close> is written \<open>file'\<close>, \<open>file\<close> being a
  keyword; \<open>None\<close> is the nil pointer, \<open>Some f\<close> a file once opened (open or closed).
\<close>

record encoder =
  FileName :: path
  BlockSize :: int
  cacheKey :: string
  file' :: "fd option"
  numBlocks :: int
  highestBlockSize :: int

definition defaultBlockSize :: int where
  "defaultBlockSize = 1024"

definition coerceBlockSize :: "encoder \<Rightarrow> encoder" where
  "coerceBlockSize e = (if BlockSize e \<le> 0 then e\<lparr>BlockSize := defaultBlockSize\<rparr> else e)"

text \<open>
  \<^verbatim>\<open>getBlockInfo\<close>: Go's \<^verbatim>\<open>/\<close> and \<^verbatim>\<open>%\<close> truncate towards zero (\<open>sdiv\<close>, \<open>smod\<close>), and
  dividing by zero panics.
\<close>

definition getBlockInfo :: "encoder \<Rightarrow> int \<Rightarrow> error + (int \<times> int)" where
  "getBlockInfo e fileSize =
     (if BlockSize e = 0 then Inl RuntimePanic
      else Inr ((fileSize - 1) sdiv BlockSize e + 1, (fileSize - 1) smod BlockSize e + 1))"

definition hex_digit :: "nat \<Rightarrow> char" where
  "hex_digit n = ''0123456789abcdef'' ! n"

definition hex_EncodeToString :: "byte list \<Rightarrow> string" where
  "hex_EncodeToString bs =
     concat (map (\<lambda>b. [hex_digit (unat b div 16), hex_digit (unat b mod 16)]) bs)"

definition bytes_of :: "string \<Rightarrow> byte list" where
  "bytes_of s = map (\<lambda>c. of_nat (of_char c)) s"

definition initCacheKey :: "encoder \<Rightarrow> world \<Rightarrow> error option \<times> encoder" where
  "initCacheKey e w =
     (case abspath w (FileName e) of
        None \<Rightarrow> (Some AbsFailed, e)
      | Some fpath \<Rightarrow> (None, e\<lparr>cacheKey := hex_EncodeToString (sha256 (bytes_of fpath))\<rparr>))"

definition path_Join :: "path \<Rightarrow> path \<Rightarrow> path" where
  "path_Join a b = (if b = [] then a else a @ ''/'' @ b)"

definition cacheDir :: "encoder \<Rightarrow> path" where
  "cacheDir e = path_Join ''cache'' (cacheKey e)"

definition hashFile :: "encoder \<Rightarrow> int \<Rightarrow> path \<times> int" where
  "hashFile e blockIndex = (cacheDir e, blockIndex)"

text \<open>
  The loop of \<^verbatim>\<open>PreProcess\<close>, \<^verbatim>\<open>for i := e.numBlocks - 1; i >= 0; i--\<close>, with its early
  returns. \<open>block\<close> is the read buffer, \<open>parentHash\<close> the hash carried from the block above.
\<close>

function hash_loop ::
  "encoder \<Rightarrow> fd \<Rightarrow> int \<Rightarrow> byte list \<Rightarrow> byte list \<Rightarrow> world \<Rightarrow> error option \<times> world" where
  "hash_loop e f i block parentHash w =
     (if 0 \<le> i then
        (case file_Seek w f (BlockSize e * i) of
           (Some err, w1) \<Rightarrow> (Some err, w1)
         | (None, w1) \<Rightarrow>
            (case file_Read w1 f block of
               ((block1, Some err), w2) \<Rightarrow> (Some err, w2)
             | ((block1, None), w2) \<Rightarrow>
                (case os_WriteFile w2 (hashFile e i) (sha256 (block1 @ parentHash)) of
                   (Some err, w3) \<Rightarrow> (Some err, w3)
                 | (None, w3) \<Rightarrow>
                    (case make_bytes (BlockSize e) of
                       Inl err \<Rightarrow> (Some err, w3)
                     | Inr block3 \<Rightarrow>
                         hash_loop e f (i - 1) block3 (sha256 (block1 @ parentHash)) w3))))
      else (None, w))"
  by pat_completeness auto
termination
  by (relation "measure (\<lambda>(e, f, i, b, p, w). nat (i + 1))") auto

declare hash_loop.simps [simp del]

text \<open>
  Lines 102 to 147 of \<^verbatim>\<open>PreProcess\<close>: open the file, hash the blocks from the highest
  down, close. Once the file is open, the deferred \<^verbatim>\<open>err = f.Close()\<close> sets the returned
  error, whatever the loop returned; a panic stays a panic.
\<close>

definition hash_blocks :: "encoder \<Rightarrow> world \<Rightarrow> error option \<times> world" where
  "hash_blocks e w =
     (case os_Open w (FileName e) of
        (Inl err, w1) \<Rightarrow> (Some err, w1)
      | (Inr f, w1) \<Rightarrow>
          (case make_bytes (highestBlockSize e) of
             Inl err \<Rightarrow> (Some err, snd (file_Close w1 (Some f)))
           | Inr block \<Rightarrow>
               (case hash_loop e f (numBlocks e - 1) block zero32 w1 of
                  (lerr, w2) \<Rightarrow>
                    (case file_Close w2 (Some f) of
                       (cerr, w3) \<Rightarrow>
                         (if lerr = Some RuntimePanic then lerr else cerr, w3)))))"

text \<open>\<^verbatim>\<open>PreProcess\<close>: the checks, the block counts, the cache key, the cache hit or miss.\<close>

definition PreProcess :: "encoder \<Rightarrow> world \<Rightarrow> error option \<times> encoder \<times> world" where
  "PreProcess e w =
     (case os_Stat w (FileName e) of
        Inl err \<Rightarrow> (Some err, e, w)
      | Inr info \<Rightarrow>
          if \<not> IsRegular info then (Some NotRegular, e, w)
          else
            (let e1 = coerceBlockSize e in
             case getBlockInfo e1 (Size info) of
               Inl err \<Rightarrow> (Some err, e1, w)
             | Inr (nb, hbs) \<Rightarrow>
                 (case initCacheKey (e1\<lparr>numBlocks := nb, highestBlockSize := hbs\<rparr>) w of
                    (Some err, e2) \<Rightarrow> (Some err, e2, w)
                  | (None, e2) \<Rightarrow>
                      (case cacheDirs w (cacheDir e2) of
                         Some isDir \<Rightarrow>
                           if \<not> isDir then (Some CacheDirNotDir, e2, w) else (None, e2, w)
                       | None \<Rightarrow>
                           (case os_MkdirAll w (cacheDir e2) of
                              (Some err, w1) \<Rightarrow> (Some err, e2, w1)
                            | (None, w1) \<Rightarrow>
                                (case hash_blocks e2 w1 of (err, w2) \<Rightarrow> (err, e2, w2)))))))"

text \<open>Lines 169 to 178 of \<^verbatim>\<open>Request\<close>: open the file unless a handle is already held.\<close>

definition ensure_open :: "encoder \<Rightarrow> world \<Rightarrow> (error + fd) \<times> encoder \<times> world" where
  "ensure_open e w =
     (case file' e of
        Some f \<Rightarrow> (Inr f, e, w)
      | None \<Rightarrow>
          (case os_Open w (FileName e) of
             (Inl err, w1) \<Rightarrow> (Inl err, e, w1)
           | (Inr f, w1) \<Rightarrow> (Inr f, e\<lparr>file' := Some f\<rparr>, w1)))"

text \<open>
  \<^verbatim>\<open>Request\<close> returns a slice and an error; \<open>None\<close> is the nil slice.
\<close>

definition Request ::
  "encoder \<Rightarrow> int \<Rightarrow> world \<Rightarrow> (byte list option \<times> error option) \<times> encoder \<times> world" where
  "Request e requestNumber w =
     (if requestNumber = 0 then
        (case os_ReadFile w (hashFile e requestNumber) of
           Inl err \<Rightarrow> ((None, Some err), e, w)
         | Inr d \<Rightarrow> ((Some d, None), e, w))
      else
        (let blockIndex = requestNumber - 1 in
         if numBlocks e \<le> blockIndex then ((None, Some EndOfStream), e, w)
         else
           (case ensure_open e w of
              (Inl err, e1, w1) \<Rightarrow> ((None, Some err), e1, w1)
            | (Inr f, e1, w1) \<Rightarrow>
                (case file_Seek w1 f (BlockSize e1 * blockIndex) of
                   (Some err, w2) \<Rightarrow> ((None, Some err), e1, w2)
                 | (None, w2) \<Rightarrow>
                     (case make_bytes (if blockIndex = numBlocks e1 - 1
                                       then highestBlockSize e1 else BlockSize e1) of
                        Inl err \<Rightarrow> ((None, Some err), e1, w2)
                      | Inr block \<Rightarrow>
                          (case file_Read w2 f block of
                             ((block1, Some err), w3) \<Rightarrow> ((Some block1, Some err), e1, w3)
                           | ((block1, None), w3) \<Rightarrow>
                               if blockIndex \<noteq> numBlocks e1 - 1 then
                                 (case os_ReadFile w3 (hashFile e1 requestNumber) of
                                    Inl err \<Rightarrow> ((Some block1, Some err), e1, w3)
                                  | Inr hash \<Rightarrow> ((Some (block1 @ hash), None), e1, w3))
                               else ((Some (block1 @ zero32), None), e1, w3)))))))"

definition Close :: "encoder \<Rightarrow> world \<Rightarrow> error option \<times> encoder \<times> world" where
  "Close e w = (case file_Close w (file' e) of (err, w1) \<Rightarrow> (err, e, w1))"

section \<open>Callers\<close>

text \<open>
  A caller making one request after the other, as the loops of the tests and of
  \<^verbatim>\<open>Stream\<close> in \<^verbatim>\<open>main.go\<close> do: the responses in order, and the encoder and world left.
\<close>

fun Requests ::
  "encoder \<Rightarrow> world \<Rightarrow> int list
     \<Rightarrow> (byte list option \<times> error option) list \<times> encoder \<times> world" where
  "Requests e w [] = ([], e, w)"
| "Requests e w (n # ns) =
     (case Request e n w of
        (r, e1, w1) \<Rightarrow> (case Requests e1 w1 ns of (rs, e2, w2) \<Rightarrow> (r # rs, e2, w2)))"

text \<open>
  The consumer of \<^verbatim>\<open>Stream\<close> in \<^verbatim>\<open>main.go\<close>, for a given list of request numbers:
  request, stop at a request error, \<^verbatim>\<open>Decode\<close> against the trusted hash, stop at a decode
  error, keep the block and trust the returned hash next. The result is the first error,
  or the verified blocks in order with the last hash, the encoder and the world.
\<close>

fun verify_stream ::
  "encoder \<Rightarrow> world \<Rightarrow> byte list \<Rightarrow> int list
     \<Rightarrow> error + (byte list list \<times> byte list \<times> encoder \<times> world)" where
  "verify_stream e w hash [] = Inr ([], hash, e, w)"
| "verify_stream e w hash (n # ns) =
     (case Request e n w of
        ((_, Some err), e1, w1) \<Rightarrow> Inl err
      | ((hashedBlock, None), e1, w1) \<Rightarrow>
          (case Decode hash (case hashedBlock of None \<Rightarrow> [] | Some b \<Rightarrow> b) of
             Inl err \<Rightarrow> Inl err
           | Inr (block, nextHash) \<Rightarrow>
               (case verify_stream e1 w1 nextHash ns of
                  Inl err \<Rightarrow> Inl err
                | Inr (blocks, h, e2, w2) \<Rightarrow> Inr (block # blocks, h, e2, w2))))"

text \<open>
  \<^verbatim>\<open>Encoder{FileName: name, BlockSize: bs}\<close>, the other fields zero, as the tests and
  \<^verbatim>\<open>Stream\<close> build it; and a world holding one regular file and no cache yet.
\<close>

definition new_Encoder :: "path \<Rightarrow> int \<Rightarrow> encoder" where
  "new_Encoder name bs =
     \<lparr>FileName = name, BlockSize = bs, cacheKey = [], file' = None,
      numBlocks = 0, highestBlockSize = 0\<rparr>"

definition one_file_world :: "path \<Rightarrow> byte list \<Rightarrow> world" where
  "one_file_world name content =
     \<lparr>nodes = [name \<mapsto> RegularFile content], abspath = (\<lambda>p. Some (''/'' @ p)),
      cacheDirs = Map.empty, hashFiles = Map.empty, handles = Map.empty, nextFd = 3\<rparr>"

section \<open>The chain as the specification defines it\<close>

text \<open>
  Following the words of the specification, not the code. Block \<open>i\<close> of a file is the
  slice of at most \<open>blockSize\<close> bytes at offset \<open>blockSize * i\<close>. The chain hash of the
  last block, index \<open>numBlocks - 1\<close>, is the SHA-256 of the block followed by 32 zero
  bytes; the chain hash of an earlier block is the SHA-256 of the block followed by the
  chain hash of the next block.
\<close>

definition spec_block :: "byte list \<Rightarrow> int \<Rightarrow> int \<Rightarrow> byte list" where
  "spec_block content bs i = take (nat bs) (drop (nat (bs * i)) content)"

function spec_hash :: "byte list \<Rightarrow> int \<Rightarrow> int \<Rightarrow> int \<Rightarrow> byte list" where
  "spec_hash content bs nb i =
     (if nb - 1 \<le> i then sha256 (spec_block content bs i @ zero32)
      else sha256 (spec_block content bs i @ spec_hash content bs nb (i + 1)))"
  by pat_completeness auto
termination
  by (relation "measure (\<lambda>(c, bs, nb, i). nat (nb - i))") auto

declare spec_hash.simps [simp del]

text \<open>
  The state in which a file's chain has been built: the file is there, the block size is
  at most what one read returns, the block counts of the encoder are those of the file,
  the cache holds the chain hash of every block, and a handle the encoder holds is open
  on the file.
\<close>

definition chain_ready :: "byte list \<Rightarrow> encoder \<Rightarrow> world \<Rightarrow> bool" where
  "chain_ready content e w \<longleftrightarrow>
     nodes w (FileName e) = Some (RegularFile content)
   \<and> 0 < BlockSize e \<and> BlockSize e \<le> int maxRW
   \<and> getBlockInfo e (int (length content)) = Inr (numBlocks e, highestBlockSize e)
   \<and> (\<forall>j. 0 \<le> j \<and> j < numBlocks e \<longrightarrow>
         hashFiles w (hashFile e j) = Some (spec_hash content (BlockSize e) (numBlocks e) j))
   \<and> (\<forall>f. file' e = Some f \<longrightarrow> (\<exists>pos. handles w f = Some (FileName e, pos)))"

section \<open>Properties of the digest and the decoder\<close>

lemma length_state_bytes: "length (state_bytes s) = 32"
  by (simp add: state_bytes_def be_bytes32_def split: prod.splits)

lemma length_sha256 [simp]: "length (sha256 m) = 32"
  by (simp add: sha256_def Let_def length_state_bytes)

lemma length_zero32 [simp]: "length zero32 = 32"
  by (simp add: zero32_def)

text \<open>
  Two digests computed by the definition: the test vector \<^verbatim>\<open>"abc"\<close> of FIPS 180-4, and
  the digest of 33 zero bytes, used below.
\<close>

lemma sha256_abc:
  "sha256 [97, 98, 99] =
     [186, 120, 22, 191, 143, 1, 207, 234, 65, 65, 64, 222, 93, 174, 34, 35,
      176, 3, 97, 163, 150, 23, 122, 156, 180, 16, 255, 97, 242, 0, 21, 173]"
  by code_simp

lemma sha256_zeros33:
  "sha256 (replicate 33 0) =
     [127, 156, 158, 49, 172, 130, 86, 202, 47, 37, 133, 131, 223, 38, 45, 188,
      125, 111, 104, 242, 160, 48, 67, 213, 201, 154, 74, 229, 167, 57, 108, 233]"
  by code_simp

text \<open>
  What the comparison loop returns from index \<open>i\<close> on, when the digest has 32 bytes and
  the indexes below \<open>i\<close> were in range.
\<close>

lemma compare_loop_char:
  assumes "length c = 32" and "i \<le> 32" and "i \<le> length h"
  shows "compare_loop i c h =
     (if \<exists>j. i \<le> j \<and> j < 32 \<and> j < length h \<and> c ! j \<noteq> h ! j then Some VerificationFailed
      else if length h < 32 then Some RuntimePanic else None)"
  using assms
proof (induction i c h rule: compare_loop.induct)
  case (1 i c h)
  show ?case
  proof (cases "i < 32")
    case False
    then have "compare_loop i c h = None"
      by (simp add: compare_loop.simps [of i c h])
    moreover from False "1.prems" have "i = 32" "32 \<le> length h" by simp_all
    ultimately show ?thesis by auto
  next
    case lt: True
    show ?thesis
    proof (cases "length h \<le> i")
      case True
      with lt have "compare_loop i c h = Some RuntimePanic"
        by (simp add: compare_loop.simps [of i c h])
      moreover from True lt "1.prems"
      have "length h < 32" "\<And>j. i \<le> j \<Longrightarrow> \<not> j < length h"
        by simp_all
      ultimately show ?thesis by auto
    next
      case inr: False
      show ?thesis
      proof (cases "c ! i = h ! i")
        case False
        then have "\<exists>j. i \<le> j \<and> j < 32 \<and> j < length h \<and> c ! j \<noteq> h ! j"
          using lt inr by (intro exI [of _ i]) auto
        with False lt inr "1.prems" show ?thesis
          by (simp add: compare_loop.simps [of i c h])
      next
        case eq: True
        have ih: "compare_loop (i + 1) c h =
           (if \<exists>j. i + 1 \<le> j \<and> j < 32 \<and> j < length h \<and> c ! j \<noteq> h ! j
            then Some VerificationFailed
            else if length h < 32 then Some RuntimePanic else None)"
          using "1.IH" lt inr eq "1.prems" by simp
        have ex: "(\<exists>j. i + 1 \<le> j \<and> j < 32 \<and> j < length h \<and> c ! j \<noteq> h ! j)
             \<longleftrightarrow> (\<exists>j. i \<le> j \<and> j < 32 \<and> j < length h \<and> c ! j \<noteq> h ! j)" (is "?L \<longleftrightarrow> ?R")
        proof
          assume ?L
          then obtain j where "i + 1 \<le> j" "j < 32" "j < length h" "c ! j \<noteq> h ! j"
            by blast
          then show ?R by (intro exI [of _ j]) auto
        next
          assume ?R
          then obtain j where j: "i \<le> j" "j < 32" "j < length h" "c ! j \<noteq> h ! j"
            by blast
          from j(1,4) eq have "i + 1 \<le> j" by (cases "j = i") auto
          with j show ?L by (intro exI [of _ j]) auto
        qed
        have "compare_loop i c h = compare_loop (i + 1) c h"
          using lt inr eq "1.prems" by (simp add: compare_loop.simps [of i c h])
        with ih ex show ?thesis by simp
      qed
    qed
  qed
qed

lemma compare_loop_full:
  assumes "length c = 32" and "length h = 32"
  shows "compare_loop 0 c h =
     (if \<exists>j<32. c ! j \<noteq> h ! j then Some VerificationFailed else None)"
  using compare_loop_char [of c 0 h] assms by simp

lemma differs_iff:
  assumes "length c = 32" and "length h = 32"
  shows "(\<exists>j<32. c ! j \<noteq> h ! j) \<longleftrightarrow> c \<noteq> (h :: byte list)"
  using assms by (auto simp: list_eq_iff_nth_eq)

lemma compare_loop_short:
  assumes "length c = 32" and "length h < 32"
  shows "compare_loop 0 c h =
     (if \<exists>j<length h. c ! j \<noteq> h ! j then Some VerificationFailed else Some RuntimePanic)"
proof -
  have "(\<exists>j. j < 32 \<and> j < length h \<and> c ! j \<noteq> h ! j) \<longleftrightarrow> (\<exists>j<length h. c ! j \<noteq> h ! j)"
    using assms(2) by (metis less_trans)
  then show ?thesis
    using compare_loop_char [of c 0 h] assms by simp
qed

lemma Decode_short_candidate:
  "length hashedBlock \<le> 32 \<Longrightarrow> Decode hash hashedBlock = Inl TooShort"
  by (simp add: Decode_def)

lemma Decode_long_candidate:
  assumes "32 < length hashedBlock" and "length hash = 32"
  shows "Decode hash hashedBlock =
     (if sha256 hashedBlock = hash
      then Inr (take (length hashedBlock - 32) hashedBlock,
                drop (length hashedBlock - 32) hashedBlock)
      else Inl VerificationFailed)"
proof -
  have n: "nat (int (length hashedBlock) - 32) = length hashedBlock - 32"
    by simp
  have "compare_loop 0 (sha256 hashedBlock) hash =
     (if sha256 hashedBlock \<noteq> hash then Some VerificationFailed else None)"
    using compare_loop_full [of "sha256 hashedBlock" hash] assms(2)
      differs_iff [of "sha256 hashedBlock" hash] by simp
  with assms(1) n show ?thesis
    by (simp add: Decode_def Let_def)
qed

text \<open>
  C3. For a trusted hash of 32 bytes and any candidate: Decode fails as too short exactly
  when the candidate has at most 32 bytes; a longer candidate fails verification exactly
  when its SHA-256 digest differs from the trusted hash at one of the 32 positions; and
  otherwise Decode returns the candidate without its last 32 bytes as the block and
  those last 32 bytes as the next trusted hash.
\<close>

theorem Decode_spec:
  assumes "length trustedHash = 32"
  shows "(Decode trustedHash candidate = Inl TooShort \<longleftrightarrow> length candidate \<le> 32)
    \<and> (32 < length candidate \<longrightarrow>
         (Decode trustedHash candidate = Inl VerificationFailed
            \<longleftrightarrow> (\<exists>i<32. sha256 candidate ! i \<noteq> trustedHash ! i)))
    \<and> (32 < length candidate \<and> \<not> (\<exists>i<32. sha256 candidate ! i \<noteq> trustedHash ! i) \<longrightarrow>
         Decode trustedHash candidate =
           Inr (take (length candidate - 32) candidate, drop (length candidate - 32) candidate))"
proof -
  have d: "(\<exists>i<32. sha256 candidate ! i \<noteq> trustedHash ! i) \<longleftrightarrow> sha256 candidate \<noteq> trustedHash"
    using differs_iff [of "sha256 candidate" trustedHash] assms by simp
  show ?thesis
  proof (cases "length candidate \<le> 32")
    case True
    then show ?thesis by (simp add: Decode_short_candidate)
  next
    case False
    then have long: "32 < length candidate" by simp
    show ?thesis
      unfolding d using long Decode_long_candidate [OF long assms] by auto
  qed
qed

theorem Decode_spec_witness:
  "length (sha256 (replicate 33 0)) = 32
   \<and> Decode (sha256 (replicate 33 0)) (replicate 33 0) = Inr ([0], replicate 32 0)
   \<and> Decode (sha256 (replicate 33 0)) (replicate 32 0) = Inl TooShort"
proof -
  have a: "Decode (sha256 (replicate 33 0)) (replicate 33 0)
      = Inr (take 1 (replicate 33 0), drop 1 (replicate 33 0))"
    using Decode_spec [of "sha256 (replicate 33 0)" "replicate 33 0"] by simp
  have b: "Decode (sha256 (replicate 33 0)) (replicate 32 0) = Inl TooShort"
    using Decode_spec [of "sha256 (replicate 33 0)" "replicate 32 0"] by simp
  have c: "take 1 (replicate 33 (0::byte)) = [0]" "drop 1 (replicate 33 (0::byte)) = replicate 32 0"
    by (simp_all add: take_Suc_conv_app_nth)
  from a b c show ?thesis by simp
qed

lemma Decode_short_hash:
  assumes "32 < length hashedBlock" and "length hash < 32"
  shows "Decode hash hashedBlock =
     (if \<exists>j<length hash. sha256 hashedBlock ! j \<noteq> hash ! j
      then Inl VerificationFailed else Inl RuntimePanic)"
  using assms compare_loop_short [of "sha256 hashedBlock" hash]
  by (simp add: Decode_def Let_def)

text \<open>
  C9, as the code has it. For a candidate longer than 32 bytes and a trusted hash shorter
  than 32 bytes, Decode never succeeds. The comparison loop returns the
  verification-failed error at the first index, within the trusted hash, where the
  digest and the trusted hash differ; only when the trusted hash agrees with the digest
  on all its bytes (so always when it is empty) does the loop index past the end of the
  trusted hash and panic.
\<close>

theorem Decode_short_trusted_hash:
  assumes "32 < length candidate" and "length trustedHash < 32"
  shows "Decode trustedHash candidate =
     (if \<exists>j<length trustedHash. sha256 candidate ! j \<noteq> trustedHash ! j
      then Inl VerificationFailed else Inl RuntimePanic)"
  using assms by (rule Decode_short_hash)

theorem Decode_short_trusted_hash_witness:
  "Decode [] (replicate 33 0) = Inl RuntimePanic
   \<and> Decode [127, 156] (replicate 33 0) = Inl RuntimePanic
   \<and> Decode [127, 0] (replicate 33 0) = Inl VerificationFailed"
proof -
  have a: "Decode [] (replicate 33 0) = Inl RuntimePanic"
    using Decode_short_trusted_hash [of "replicate 33 0" "[]"] by simp
  have b: "Decode [127, 156] (replicate 33 0) = Inl RuntimePanic"
    using Decode_short_trusted_hash [of "replicate 33 0" "[127, 156]"]
    by (simp add: sha256_zeros33 Ex_less_Suc)
  have c: "Decode [127, 0] (replicate 33 0) = Inl VerificationFailed"
    using Decode_short_trusted_hash [of "replicate 33 0" "[127, 0]"]
    by (simp add: sha256_zeros33 Ex_less_Suc)
  from a b c show ?thesis by simp
qed

text \<open>
  The claim as stated has every short trusted hash panic. With the one-byte trusted hash
  0 and a candidate of 33 zero bytes, whose digest starts with the byte 127, Decode
  returns the verification-failed error.
\<close>

theorem Decode_short_trusted_hash_counterexample:
  "Decode [0] (replicate 33 0) = Inl VerificationFailed"
  using Decode_short_hash [of "replicate 33 0" "[0]"]
  by (simp add: sha256_zeros33)

text \<open>
  A response changed in one byte keeps its length, so against the hash of the response
  as served Decode either fails verification or the changed bytes have the same SHA-256
  digest as the served ones.
\<close>

lemma Decode_changed_byte:
  assumes "32 < length r" and "p < length r"
  shows "Decode (sha256 r) (r[p := b]) = Inl VerificationFailed
     \<longleftrightarrow> sha256 (r[p := b]) \<noteq> sha256 r"
  using assms Decode_long_candidate [of "r[p := b]" "sha256 r"] by simp

text \<open>
  A block followed by a 32-byte hash, decoded against the digest of both.
\<close>

lemma Decode_chain:
  assumes "b \<noteq> []" and "length t = 32"
  shows "Decode (sha256 (b @ t)) (b @ t) = Inr (b, t)"
proof -
  have "32 < length (b @ t)" using assms by (cases b) simp_all
  then show ?thesis
    using Decode_long_candidate [of "b @ t" "sha256 (b @ t)"] assms(2) by simp
qed

section \<open>Block counts\<close>

lemma getBlockInfo_zero_size:
  "1 < BlockSize e \<Longrightarrow> getBlockInfo e 0 = Inr (1, 0)"
  by (simp add: getBlockInfo_def signed_divide_int_def signed_modulo_int_def)

text \<open>
  C5, as the code has it. For every file size of at least one byte and every positive
  block size, numBlocks is floor((fileSize - 1) / blockSize) + 1 and at least 1, and
  highestBlockSize is ((fileSize - 1) mod blockSize) + 1, greater than 0 and at most
  blockSize. (An empty file is not covered: see the counterexample.)
\<close>

theorem getBlockInfo_spec:
  assumes "1 \<le> fileSize" and "0 < BlockSize e"
  shows "\<exists>nb hbs. getBlockInfo e fileSize = Inr (nb, hbs)
     \<and> nb = (fileSize - 1) div BlockSize e + 1 \<and> 1 \<le> nb
     \<and> hbs = (fileSize - 1) mod BlockSize e + 1 \<and> 0 < hbs \<and> hbs \<le> BlockSize e"
proof -
  have nn: "0 \<le> fileSize - 1" using assms(1) by simp
  have q: "(fileSize - 1) sdiv BlockSize e = (fileSize - 1) div BlockSize e"
    using nn assms(2) by (simp add: signed_divide_int_def sgn_if)
  have r: "(fileSize - 1) smod BlockSize e = (fileSize - 1) mod BlockSize e"
    using nn assms(2) by (simp add: signed_modulo_int_def sgn_if)
  have d: "0 \<le> (fileSize - 1) div BlockSize e"
    using nn assms(2) by (simp add: pos_imp_zdiv_nonneg_iff)
  have m: "0 \<le> (fileSize - 1) mod BlockSize e" "(fileSize - 1) mod BlockSize e + 1 \<le> BlockSize e"
    using pos_mod_bound [OF assms(2), of "fileSize - 1"] pos_mod_sign [OF assms(2), of "fileSize - 1"]
    by linarith+
  have "getBlockInfo e fileSize
      = Inr ((fileSize - 1) div BlockSize e + 1, (fileSize - 1) mod BlockSize e + 1)"
    using assms(2) q r by (simp add: getBlockInfo_def)
  with d m show ?thesis by simp
qed

theorem getBlockInfo_spec_witness:
  "\<exists>nb hbs. getBlockInfo (new_Encoder ''f'' 1024) 10240 = Inr (nb, hbs)
     \<and> nb = 10 \<and> hbs = 1024"
  using getBlockInfo_spec [of 10240 "new_Encoder ''f'' 1024"]
  by (simp add: new_Encoder_def)

text \<open>
  The claim as stated also covers a file of size 0. There the code returns one block of
  length 0: the last block's length is not greater than 0, and numBlocks is not
  floor(-1 / 1024) + 1 = 0.
\<close>

theorem getBlockInfo_empty_file_counterexample:
  "getBlockInfo (new_Encoder ''f'' 1024) 0 = Inr (1, 0)"
  by (simp add: getBlockInfo_zero_size new_Encoder_def)

lemma sdiv_nonneg: "0 \<le> a \<Longrightarrow> 0 < b \<Longrightarrow> a sdiv b = a div (b::int)"
  by (simp add: signed_divide_int_def sgn_if)

lemma smod_nonneg: "0 \<le> a \<Longrightarrow> 0 < b \<Longrightarrow> a smod b = a mod (b::int)"
  by (simp add: signed_modulo_int_def sgn_if)

lemma getBlockInfo_facts:
  assumes bs: "0 < BlockSize e"
    and gi: "getBlockInfo e (int (length content)) = Inr (nb, hbs)"
  shows "0 \<le> hbs" and "0 \<le> nb"
    and "int (length content) \<le> BlockSize e * nb"
    and "0 \<le> nb - 1 \<Longrightarrow> BlockSize e * (nb - 1) \<le> int (length content)"
    and "0 \<le> nb - 1 \<Longrightarrow>
           nat hbs = min (nat (BlockSize e)) (length content - nat (BlockSize e * (nb - 1)))"
    and "content \<noteq> [] \<Longrightarrow> 1 \<le> nb"
    and "content \<noteq> [] \<Longrightarrow> BlockSize e * (nb - 1) < int (length content)"
    and "1 < BlockSize e \<Longrightarrow> 1 \<le> nb"
    and "hbs \<le> BlockSize e"
proof -
  let ?bs = "BlockSize e" and ?n = "int (length content)"
  have nbv: "nb = (?n - 1) sdiv ?bs + 1" and hbv: "hbs = (?n - 1) smod ?bs + 1"
    using bs gi by (simp_all add: getBlockInfo_def)
  have all: "0 \<le> hbs \<and> 0 \<le> nb \<and> ?n \<le> ?bs * nb
      \<and> (0 \<le> nb - 1 \<longrightarrow> ?bs * (nb - 1) \<le> ?n
            \<and> nat hbs = min (nat ?bs) (length content - nat (?bs * (nb - 1))))
      \<and> (content \<noteq> [] \<longrightarrow> 1 \<le> nb \<and> ?bs * (nb - 1) < ?n)
      \<and> (1 < ?bs \<longrightarrow> 1 \<le> nb) \<and> hbs \<le> ?bs"
  proof (cases "content = []")
    case True
    show ?thesis
    proof (cases "?bs = 1")
      case True
      with \<open>content = []\<close> nbv hbv show ?thesis
        by (simp add: signed_divide_int_def signed_modulo_int_def)
    next
      case False
      with bs have "1 < ?bs" by simp
      with \<open>content = []\<close> nbv hbv show ?thesis
        by (simp add: signed_divide_int_def signed_modulo_int_def)
    qed
  next
    case False
    then have pos: "0 \<le> ?n - 1" by (cases content) simp_all
    have q: "(?n - 1) sdiv ?bs = (?n - 1) div ?bs"
      using pos bs by (rule sdiv_nonneg)
    have r: "(?n - 1) smod ?bs = (?n - 1) mod ?bs"
      using pos bs by (rule smod_nonneg)
    have d: "0 \<le> (?n - 1) div ?bs"
      using pos bs by (simp only: pos_imp_zdiv_nonneg_iff)
    have m: "0 \<le> (?n - 1) mod ?bs" "(?n - 1) mod ?bs < ?bs"
      using bs by simp_all
    define q0 where "q0 = (?n - 1) div ?bs"
    define r0 where "r0 = (?n - 1) mod ?bs"
    have dm: "?bs * q0 + r0 = ?n - 1"
      unfolding q0_def r0_def by simp
    have r0b: "0 \<le> r0" "r0 < ?bs" using m by (simp_all add: r0_def)
    have q0b: "0 \<le> q0" using d by (simp add: q0_def)
    have nbq: "nb = q0 + 1" using nbv q by (simp add: q0_def)
    have hbr: "hbs = r0 + 1" using hbv r by (simp add: r0_def)
    have e1: "?bs * (nb - 1) = ?bs * q0" using nbq by simp
    have e2: "?bs * nb = ?bs * q0 + ?bs" using nbq by (simp add: algebra_simps)
    have nn: "0 \<le> ?bs * q0" using q0b bs by simp
    have h: "hbs = ?n - ?bs * (nb - 1)" unfolding e1 using hbr dm by linarith
    have le: "?bs * (nb - 1) \<le> ?n - 1" unfolding e1 using dm r0b by linarith
    have up: "?n \<le> ?bs * nb" unfolding e2 using dm r0b by linarith
    have hle: "hbs \<le> ?bs" using hbr r0b by linarith
    have hpos: "0 < hbs" using hbr r0b by linarith
    have nb1: "1 \<le> nb" using nbq q0b by linarith
    have "nat hbs = length content - nat (?bs * (nb - 1))"
      unfolding e1 using hbr dm nn by linarith
    moreover have "nat hbs \<le> nat ?bs" using hle by simp
    ultimately have mn: "nat hbs = min (nat ?bs) (length content - nat (?bs * (nb - 1)))"
      by simp
    from hpos nb1 up le mn hle show ?thesis by simp
  qed
  from all show "0 \<le> hbs" and "0 \<le> nb" and "?n \<le> ?bs * nb" by simp_all
  from all show "0 \<le> nb - 1 \<Longrightarrow> ?bs * (nb - 1) \<le> ?n" by simp
  from all show "0 \<le> nb - 1 \<Longrightarrow>
           nat hbs = min (nat ?bs) (length content - nat (?bs * (nb - 1)))" by simp
  from all show "content \<noteq> [] \<Longrightarrow> 1 \<le> nb" by simp
  from all show "content \<noteq> [] \<Longrightarrow> ?bs * (nb - 1) < ?n" by simp
  from all show "1 < ?bs \<Longrightarrow> 1 \<le> nb" by simp
  from all show "hbs \<le> ?bs" by simp
qed

section \<open>Requests past the last block\<close>

lemma Request_EndOfStream:
  assumes "1 \<le> n" and "numBlocks e \<le> n - 1"
  shows "Request e n w = ((None, Some EndOfStream), e, w)"
  using assms by (simp add: Request_def)

text \<open>
  C6. A request numbered n >= 1 with n - 1 >= numBlocks returns no bytes and the
  end-of-stream error, and leaves the encoder and the world as they were; so any further
  requests past the end, in any number and order, each return the same.
\<close>

theorem Request_past_end:
  assumes "1 \<le> n" and "numBlocks e \<le> n - 1"
    and "\<forall>m \<in> set ms. 1 \<le> m \<and> numBlocks e \<le> m - 1"
  shows "Request e n w = ((None, Some EndOfStream), e, w)
     \<and> Requests e w (n # ms) = (replicate (Suc (length ms)) (None, Some EndOfStream), e, w)"
proof -
  have rep: "Requests e w ms = (replicate (length ms) (None, Some EndOfStream), e, w)"
    using assms(3)
  proof (induction ms)
    case Nil
    show ?case by simp
  next
    case (Cons m ms)
    then show ?case by (simp add: Request_EndOfStream)
  qed
  show ?thesis
    using assms(1,2) rep by (simp add: Request_EndOfStream)
qed

theorem Request_past_end_witness:
  "Requests (new_Encoder ''f'' 1024 \<lparr>numBlocks := 10\<rparr>) (one_file_world ''f'' []) [11, 12, 17, 11]
     = ([(None, Some EndOfStream), (None, Some EndOfStream), (None, Some EndOfStream),
         (None, Some EndOfStream)],
        new_Encoder ''f'' 1024 \<lparr>numBlocks := 10\<rparr>, one_file_world ''f'' [])"
proof -
  have "Requests (new_Encoder ''f'' 1024 \<lparr>numBlocks := 10\<rparr>) (one_file_world ''f'' [])
          (11 # [12, 17, 11])
     = (replicate (Suc (length [12 :: int, 17, 11])) (None, Some EndOfStream),
        new_Encoder ''f'' 1024 \<lparr>numBlocks := 10\<rparr>, one_file_world ''f'' [])"
    by (rule conjunct2 [OF Request_past_end]) (simp_all add: new_Encoder_def)
  then show ?thesis by (simp del: Requests.simps)
qed

section \<open>Closing\<close>

lemma PreProcess_keeps_handle: "file' (fst (snd (PreProcess e w))) = file' e"
  by (auto simp: PreProcess_def coerceBlockSize_def initCacheKey_def Let_def
      split: sum.splits prod.splits option.splits if_splits)

lemma Request_root_keeps_encoder: "fst (snd (Request e 0 w)) = e"
  by (simp add: Request_def split: sum.splits)

text \<open>
  C10, as the code has it. Close on an encoder whose file handle is still nil returns the
  error os.ErrInvalid of the nil check in os.File.Close: it does not panic, and it
  changes neither the encoder nor the world. The handle is still nil after PreProcess
  and after request 0.
\<close>

theorem Close_before_open:
  assumes "file' e = None"
  shows "Close e w = (Some ErrInvalid, e, w)
     \<and> file' (fst (snd (PreProcess e w))) = None
     \<and> file' (fst (snd (Request e 0 w))) = None"
  using assms
  by (simp add: Close_def file_Close_def PreProcess_keeps_handle Request_root_keeps_encoder)

theorem Close_before_open_witness:
  "Close (new_Encoder ''f'' 1024) (one_file_world ''f'' [1, 2, 3])
     = (Some ErrInvalid, new_Encoder ''f'' 1024, one_file_world ''f'' [1, 2, 3])"
  using Close_before_open [of "new_Encoder ''f'' 1024" "one_file_world ''f'' [1, 2, 3]"]
  by (simp add: new_Encoder_def)

text \<open>
  The claim as stated has this call panic. On a fresh encoder it returns an error value.
\<close>

theorem Close_nil_counterexample:
  "fst (Close (new_Encoder ''f'' 1024) (one_file_world ''f'' [1, 2, 3])) \<noteq> Some RuntimePanic"
  by (simp add: Close_def file_Close_def new_Encoder_def)

section \<open>Pre-processing\<close>

lemma maxRW_le_maxAlloc: "int maxRW \<le> maxAlloc"
  by (simp add: maxRW_def maxAlloc_def)

lemma seek_read:
  assumes h: "handles w f = Some (p, pos)"
    and n: "nodes w p = Some (RegularFile content)"
    and off: "0 \<le> off"
    and len: "length buf = min (nat bs) (length content - nat off)"
    and cap: "length buf \<le> maxRW"
  shows "\<exists>pos'. file_Seek w f off = (None, w\<lparr>handles := (handles w)(f \<mapsto> (p, off))\<rparr>)
     \<and> file_Read (w\<lparr>handles := (handles w)(f \<mapsto> (p, off))\<rparr>) f buf
        = ((take (nat bs) (drop (nat off) content), None),
           w\<lparr>handles := (handles w)(f \<mapsto> (p, pos'))\<rparr>)"
proof -
  have s: "file_Seek w f off = (None, w\<lparr>handles := (handles w)(f \<mapsto> (p, off))\<rparr>)"
    using h off by (simp add: file_Seek_def)
  have t: "take (length buf) (drop (nat off) content) = take (nat bs) (drop (nat off) content)"
    using len by (simp add: min_def split: if_splits)
  have l: "length (take (nat bs) (drop (nat off) content)) = length buf"
    using len by (simp add: min.commute)
  have m: "min (length buf) maxRW = length buf"
    using cap by simp
  show ?thesis
  proof (cases "buf = []")
    case True
    then have "length (take (nat bs) (drop (nat off) content)) = 0"
      using l by (simp del: length_take length_drop)
    then have "take (nat bs) (drop (nat off) content) = []"
      by (simp only: length_0_conv)
    with True s h show ?thesis
      by (intro exI [of _ off]) (simp add: file_Read_def)
  next
    case False
    then have "0 < length buf" by simp
    then have "0 < length content - nat off"
      using len by (simp only: min_less_iff_conj)
    then have "int (length content) > off"
      using off by linarith
    with False s h n t l m show ?thesis
      by (intro exI [of _ "off + int (length buf)"]) (simp add: file_Read_def Let_def)
  qed
qed

lemma spec_hash_step:
  "sha256 (spec_block content bs i @ (if nb - 1 \<le> i then zero32 else spec_hash content bs nb (i + 1)))
     = spec_hash content bs nb i"
  by (simp add: spec_hash.simps [of content bs nb i])

lemma hash_loop_chain:
  assumes "handles w f = Some (p, pos)"
    and "nodes w p = Some (RegularFile content)"
    and "cacheDirs w (cacheDir e) = Some True"
    and "0 < BlockSize e"
    and "0 \<le> i \<Longrightarrow> BlockSize e * i \<le> int (length content)"
    and "0 \<le> i \<Longrightarrow> length block = min (nat (BlockSize e)) (length content - nat (BlockSize e * i))"
    and "parentHash = (if nb - 1 \<le> i then zero32 else spec_hash content (BlockSize e) nb (i + 1))"
    and "i \<le> nb - 1"
    and "BlockSize e \<le> int maxRW"
  shows "\<exists>pos' hf. hash_loop e f i block parentHash w
        = (None, w\<lparr>handles := (handles w)(f \<mapsto> (p, pos')), hashFiles := hf\<rparr>)
     \<and> (\<forall>j. 0 \<le> j \<and> j \<le> i \<longrightarrow> hf (cacheDir e, j) = Some (spec_hash content (BlockSize e) nb j))
     \<and> (\<forall>k. \<not> (fst k = cacheDir e \<and> 0 \<le> snd k \<and> snd k \<le> i) \<longrightarrow> hf k = hashFiles w k)"
  using assms
proof (induction e f i block parentHash w arbitrary: pos rule: hash_loop.induct)
  case (1 e f i block parentHash w)
  let ?bs = "BlockSize e"
  show ?case
  proof (cases "0 \<le> i")
    case False
    then have hl: "hash_loop e f i block parentHash w = (None, w)"
      by (simp add: hash_loop.simps [of e f i block parentHash w])
    have triv: "w\<lparr>handles := (handles w)(f \<mapsto> (p, pos)), hashFiles := hashFiles w\<rparr> = w"
      using "1.prems"(1) by (simp add: map_upd_triv)
    have "hash_loop e f i block parentHash w
          = (None, w\<lparr>handles := (handles w)(f \<mapsto> (p, pos)), hashFiles := hashFiles w\<rparr>)
       \<and> (\<forall>j. 0 \<le> j \<and> j \<le> i \<longrightarrow> hashFiles w (cacheDir e, j) = Some (spec_hash content ?bs nb j))
       \<and> (\<forall>k. \<not> (fst k = cacheDir e \<and> 0 \<le> snd k \<and> snd k \<le> i) \<longrightarrow> hashFiles w k = hashFiles w k)"
      unfolding triv using hl False by auto
    then show ?thesis by blast
  next
    case True
    have off: "0 \<le> ?bs * i" using True "1.prems"(4) by simp
    have cap: "length block \<le> maxRW"
      using "1.prems"(6) [OF True] "1.prems"(9) by linarith
    from seek_read [OF "1.prems"(1,2) off _ cap, of ?bs] "1.prems"(6) True
    obtain pos1 where
      sk: "file_Seek w f (?bs * i) = (None, w\<lparr>handles := (handles w)(f \<mapsto> (p, ?bs * i))\<rparr>)"
      and rd: "file_Read (w\<lparr>handles := (handles w)(f \<mapsto> (p, ?bs * i))\<rparr>) f block
        = ((spec_block content ?bs i, None), w\<lparr>handles := (handles w)(f \<mapsto> (p, pos1))\<rparr>)"
      unfolding spec_block_def by blast
    let ?w2 = "w\<lparr>handles := (handles w)(f \<mapsto> (p, pos1))\<rparr>"
    let ?h = "sha256 (spec_block content ?bs i @ parentHash)"
    have ph: "?h = spec_hash content ?bs nb i"
      using "1.prems"(7) spec_hash_step [of content ?bs i nb] by simp
    let ?w3 = "?w2\<lparr>hashFiles := (hashFiles w)((cacheDir e, i) \<mapsto> ?h)\<rparr>"
    have wr: "os_WriteFile ?w2 (hashFile e i) ?h = (None, ?w3)"
      using "1.prems"(3) by (simp add: os_WriteFile_def hashFile_def)
    have mk: "make_bytes ?bs = Inr (replicate (nat ?bs) 0)"
      using "1.prems"(4,9) maxRW_le_maxAlloc by (simp add: make_bytes_def)
    have unf: "hash_loop e f i block parentHash w
        = hash_loop e f (i - 1) (replicate (nat ?bs) 0) ?h ?w3"
      using True sk rd wr mk by (simp add: hash_loop.simps [of e f i block parentHash w])
    have ih: "\<exists>pos' hf. hash_loop e f (i - 1) (replicate (nat ?bs) 0) ?h ?w3
        = (None, ?w3\<lparr>handles := (handles ?w3)(f \<mapsto> (p, pos')), hashFiles := hf\<rparr>)
       \<and> (\<forall>j. 0 \<le> j \<and> j \<le> i - 1 \<longrightarrow> hf (cacheDir e, j) = Some (spec_hash content ?bs nb j))
       \<and> (\<forall>k. \<not> (fst k = cacheDir e \<and> 0 \<le> snd k \<and> snd k \<le> i - 1) \<longrightarrow> hf k = hashFiles ?w3 k)"
    proof (rule "1.IH" [OF True sk [symmetric] refl rd [symmetric] refl refl,
          of _ _ "replicate (nat ?bs) 0" pos1])
      show "(None, ?w3) = os_WriteFile ?w2 (hashFile e i) (sha256 (spec_block content ?bs i @ parentHash))"
        using wr by simp
      show "None = None" ..
      show "make_bytes ?bs = Inr (replicate (nat ?bs) 0)" by (rule mk)
      show "handles ?w3 f = Some (p, pos1)" by simp
      show "nodes ?w3 p = Some (RegularFile content)" using "1.prems"(2) by simp
      show "cacheDirs ?w3 (cacheDir e) = Some True" using "1.prems"(3) by simp
      show "0 < ?bs" by (rule "1.prems"(4))
      show "?bs * (i - 1) \<le> int (length content)" if "0 \<le> i - 1"
      proof -
        have "?bs * (i - 1) \<le> ?bs * i" using "1.prems"(4) by (simp add: mult_left_mono)
        with "1.prems"(5) [OF True] show ?thesis by linarith
      qed
      show "length (replicate (nat ?bs) (0::byte))
          = min (nat ?bs) (length content - nat (?bs * (i - 1)))" if "0 \<le> i - 1"
      proof -
        have "?bs * (i - 1) + ?bs = ?bs * i" by (simp add: algebra_simps)
        with "1.prems"(5) [OF True] have "?bs * (i - 1) + ?bs \<le> int (length content)" by simp
        moreover have "0 \<le> ?bs * (i - 1)" using that "1.prems"(4) by simp
        ultimately have "nat ?bs \<le> length content - nat (?bs * (i - 1))" by linarith
        then show ?thesis by simp
      qed
      show "sha256 (spec_block content ?bs i @ parentHash)
          = (if nb - 1 \<le> i - 1 then zero32 else spec_hash content ?bs nb (i - 1 + 1))"
        using ph "1.prems"(8) by simp
      show "i - 1 \<le> nb - 1" using "1.prems"(8) by simp
      show "?bs \<le> int maxRW" by (rule "1.prems"(9))
    qed
    then obtain pos' hf where
      r: "hash_loop e f (i - 1) (replicate (nat ?bs) 0) ?h ?w3
        = (None, ?w3\<lparr>handles := (handles ?w3)(f \<mapsto> (p, pos')), hashFiles := hf\<rparr>)"
      and lo: "\<forall>j. 0 \<le> j \<and> j \<le> i - 1 \<longrightarrow> hf (cacheDir e, j) = Some (spec_hash content ?bs nb j)"
      and oth: "\<forall>k. \<not> (fst k = cacheDir e \<and> 0 \<le> snd k \<and> snd k \<le> i - 1) \<longrightarrow> hf k = hashFiles ?w3 k"
      by blast
    have res: "hash_loop e f i block parentHash w
        = (None, w\<lparr>handles := (handles w)(f \<mapsto> (p, pos')), hashFiles := hf\<rparr>)"
      using unf r by simp
    have a: "hf (cacheDir e, j) = Some (spec_hash content ?bs nb j)" if "0 \<le> j \<and> j \<le> i" for j
    proof (cases "j = i")
      case True
      then have "hf (cacheDir e, j) = hashFiles ?w3 (cacheDir e, j)"
        using oth [rule_format, of "(cacheDir e, j)"] by simp
      with True ph show ?thesis by simp
    next
      case False
      with that lo show ?thesis by simp
    qed
    have b: "hf k = hashFiles w k" if "\<not> (fst k = cacheDir e \<and> 0 \<le> snd k \<and> snd k \<le> i)" for k
    proof -
      have "hf k = hashFiles ?w3 k"
        using oth [rule_format, of k] that by auto
      moreover have "k \<noteq> (cacheDir e, i)" using that True by auto
      ultimately show ?thesis by simp
    qed
    from res a b show ?thesis by blast
  qed
qed

lemma hash_blocks_chain:
  assumes reg: "nodes w (FileName e) = Some (RegularFile content)"
    and dir: "cacheDirs w (cacheDir e) = Some True"
    and bs: "0 < BlockSize e"
    and gi: "getBlockInfo e (int (length content)) = Inr (numBlocks e, highestBlockSize e)"
    and cap: "BlockSize e \<le> int maxRW"
  shows "\<exists>hf. hash_blocks e w
        = (None, w\<lparr>handles := (handles w)(nextFd w := None), nextFd := nextFd w + 1,
                    hashFiles := hf\<rparr>)
     \<and> (\<forall>j. 0 \<le> j \<and> j < numBlocks e \<longrightarrow>
           hf (cacheDir e, j) = Some (spec_hash content (BlockSize e) (numBlocks e) j))
     \<and> (\<forall>k. fst k \<noteq> cacheDir e \<longrightarrow> hf k = hashFiles w k)"
proof -
  let ?f = "nextFd w" and ?nb = "numBlocks e" and ?hbs = "highestBlockSize e"
  let ?w1 = "w\<lparr>handles := (handles w)(?f \<mapsto> (FileName e, 0)), nextFd := ?f + 1\<rparr>"
  note facts = getBlockInfo_facts [OF bs gi]
  have op: "os_Open w (FileName e) = (Inr ?f, ?w1)"
    using reg by (simp add: os_Open_def)
  have mk: "make_bytes ?hbs = Inr (replicate (nat ?hbs) 0)"
    using facts(1,9) cap maxRW_le_maxAlloc by (simp add: make_bytes_def)
  have "\<exists>pos' hf. hash_loop e ?f (?nb - 1) (replicate (nat ?hbs) 0) zero32 ?w1
        = (None, ?w1\<lparr>handles := (handles ?w1)(?f \<mapsto> (FileName e, pos')), hashFiles := hf\<rparr>)
     \<and> (\<forall>j. 0 \<le> j \<and> j \<le> ?nb - 1 \<longrightarrow>
           hf (cacheDir e, j) = Some (spec_hash content (BlockSize e) ?nb j))
     \<and> (\<forall>k. \<not> (fst k = cacheDir e \<and> 0 \<le> snd k \<and> snd k \<le> ?nb - 1) \<longrightarrow> hf k = hashFiles ?w1 k)"
  proof (rule hash_loop_chain [where pos = 0 and content = content])
    show "handles ?w1 ?f = Some (FileName e, 0)" by simp
    show "nodes ?w1 (FileName e) = Some (RegularFile content)" using reg by simp
    show "cacheDirs ?w1 (cacheDir e) = Some True" using dir by simp
    show "0 < BlockSize e" by (rule bs)
    show "BlockSize e * (?nb - 1) \<le> int (length content)" if "0 \<le> ?nb - 1"
      using facts(4) that by simp
    show "length (replicate (nat ?hbs) (0::byte))
        = min (nat (BlockSize e)) (length content - nat (BlockSize e * (?nb - 1)))" if "0 \<le> ?nb - 1"
      using facts(5) that by simp
    show "zero32 = (if ?nb - 1 \<le> ?nb - 1 then zero32
        else spec_hash content (BlockSize e) ?nb (?nb - 1 + 1))" by simp
    show "?nb - 1 \<le> ?nb - 1" by simp
    show "BlockSize e \<le> int maxRW" by (rule cap)
  qed
  then obtain pos' hf where
    lp: "hash_loop e ?f (?nb - 1) (replicate (nat ?hbs) 0) zero32 ?w1
        = (None, ?w1\<lparr>handles := (handles ?w1)(?f \<mapsto> (FileName e, pos')), hashFiles := hf\<rparr>)"
    and lo: "\<forall>j. 0 \<le> j \<and> j \<le> ?nb - 1 \<longrightarrow>
           hf (cacheDir e, j) = Some (spec_hash content (BlockSize e) ?nb j)"
    and oth: "\<forall>k. \<not> (fst k = cacheDir e \<and> 0 \<le> snd k \<and> snd k \<le> ?nb - 1) \<longrightarrow> hf k = hashFiles ?w1 k"
    by blast
  have "hash_blocks e w
      = (None, w\<lparr>handles := (handles w)(?f := None), nextFd := ?f + 1, hashFiles := hf\<rparr>)"
    using op mk lp by (simp add: hash_blocks_def file_Close_def)
  moreover have "\<forall>j. 0 \<le> j \<and> j < ?nb \<longrightarrow>
           hf (cacheDir e, j) = Some (spec_hash content (BlockSize e) ?nb j)"
    using lo by simp
  moreover have "\<forall>k. fst k \<noteq> cacheDir e \<longrightarrow> hf k = hashFiles w k"
    using oth by simp
  ultimately show ?thesis by blast
qed

lemma PreProcess_miss:
  assumes reg: "nodes w (FileName e) = Some (RegularFile content)"
    and bs: "0 < BlockSize e"
    and ab: "abspath w (FileName e) = Some fpath"
    and miss: "cacheDirs w (path_Join ''cache'' (hex_EncodeToString (sha256 (bytes_of fpath)))) = None"
    and cap: "BlockSize e \<le> int maxRW"
  shows "\<exists>e1 w1. PreProcess e w = (None, e1, w1)
     \<and> (file' e = None \<longrightarrow> chain_ready content e1 w1)
     \<and> (\<forall>j. 0 \<le> j \<and> j < numBlocks e1 \<longrightarrow>
           hashFiles w1 (hashFile e1 j)
             = Some (spec_hash content (BlockSize e) (numBlocks e1) j))
     \<and> FileName e1 = FileName e \<and> BlockSize e1 = BlockSize e \<and> file' e1 = file' e
     \<and> getBlockInfo e (int (length content)) = Inr (numBlocks e1, highestBlockSize e1)
     \<and> nodes w1 = nodes w \<and> handles w1 = (handles w)(nextFd w := None)"
proof -
  let ?key = "hex_EncodeToString (sha256 (bytes_of fpath))"
  let ?dir = "path_Join ''cache'' ?key"
  obtain nb hbs where gi: "getBlockInfo e (int (length content)) = Inr (nb, hbs)"
    using bs by (simp add: getBlockInfo_def)
  let ?e2 = "e\<lparr>numBlocks := nb, highestBlockSize := hbs, cacheKey := ?key\<rparr>"
  let ?w1 = "w\<lparr>cacheDirs := (cacheDirs w)(?dir \<mapsto> True)\<rparr>"
  have cd: "cacheDir ?e2 = ?dir" by (simp add: cacheDir_def)
  have st: "os_Stat w (FileName e) = Inr (RegularFile content)"
    using reg by (simp add: os_Stat_def)
  have co: "coerceBlockSize e = e" using bs by (simp add: coerceBlockSize_def)
  have ik: "initCacheKey (e\<lparr>numBlocks := nb, highestBlockSize := hbs\<rparr>) w = (None, ?e2)"
    using ab by (simp add: initCacheKey_def)
  have mk: "os_MkdirAll w ?dir = (None, ?w1)"
    using miss by (simp add: os_MkdirAll_def)
  have gi2: "getBlockInfo ?e2 (int (length content)) = Inr (numBlocks ?e2, highestBlockSize ?e2)"
    using gi bs by (simp add: getBlockInfo_def)
  have "\<exists>hf. hash_blocks ?e2 ?w1
        = (None, ?w1\<lparr>handles := (handles ?w1)(nextFd ?w1 := None), nextFd := nextFd ?w1 + 1,
                    hashFiles := hf\<rparr>)
     \<and> (\<forall>j. 0 \<le> j \<and> j < numBlocks ?e2 \<longrightarrow>
           hf (cacheDir ?e2, j) = Some (spec_hash content (BlockSize ?e2) (numBlocks ?e2) j))
     \<and> (\<forall>k. fst k \<noteq> cacheDir ?e2 \<longrightarrow> hf k = hashFiles ?w1 k)"
  proof (rule hash_blocks_chain)
    show "nodes ?w1 (FileName ?e2) = Some (RegularFile content)" using reg by simp
    show "cacheDirs ?w1 (cacheDir ?e2) = Some True" by (simp add: cd)
    show "0 < BlockSize ?e2" using bs by simp
    show "getBlockInfo ?e2 (int (length content)) = Inr (numBlocks ?e2, highestBlockSize ?e2)"
      by (rule gi2)
    show "BlockSize ?e2 \<le> int maxRW" using cap by simp
  qed
  then obtain hf where
    hb: "hash_blocks ?e2 ?w1
        = (None, ?w1\<lparr>handles := (handles ?w1)(nextFd ?w1 := None), nextFd := nextFd ?w1 + 1,
                    hashFiles := hf\<rparr>)"
    and lo: "\<forall>j. 0 \<le> j \<and> j < numBlocks ?e2 \<longrightarrow>
           hf (cacheDir ?e2, j) = Some (spec_hash content (BlockSize ?e2) (numBlocks ?e2) j)"
    by blast
  let ?w2 = "?w1\<lparr>handles := (handles ?w1)(nextFd ?w1 := None), nextFd := nextFd ?w1 + 1,
                    hashFiles := hf\<rparr>"
  have pp: "PreProcess e w = (None, ?e2, ?w2)"
    using st co gi ik miss mk hb by (simp add: PreProcess_def cd)
  have hs: "\<forall>j. 0 \<le> j \<and> j < numBlocks ?e2 \<longrightarrow>
           hashFiles ?w2 (hashFile ?e2 j)
             = Some (spec_hash content (BlockSize e) (numBlocks ?e2) j)"
    using lo by (simp add: hashFile_def)
  have cr: "file' e = None \<longrightarrow> chain_ready content ?e2 ?w2"
    unfolding chain_ready_def using reg bs cap gi2 lo by (simp add: hashFile_def)
  show ?thesis
    by (rule exI [of _ ?e2], rule exI [of _ ?w2]) (use pp cr hs gi in simp)
qed

lemma example_world_facts:
  "nodes (one_file_world name content) name = Some (RegularFile content)"
  "abspath (one_file_world name content) p = Some (''/'' @ p)"
  "cacheDirs (one_file_world name content) d = None"
  "file' (new_Encoder name bs) = None"
  "BlockSize (new_Encoder name bs) = bs"
  "FileName (new_Encoder name bs) = name"
  by (simp_all add: one_file_world_def new_Encoder_def)

lemma PreProcess_example:
  assumes "0 < bs" and "bs \<le> int maxRW"
  shows "\<exists>e1 w1. PreProcess (new_Encoder name bs) (one_file_world name content) = (None, e1, w1)
     \<and> chain_ready content e1 w1
     \<and> getBlockInfo (new_Encoder name bs) (int (length content))
          = Inr (numBlocks e1, highestBlockSize e1)"
proof -
  let ?e = "new_Encoder name bs" and ?w = "one_file_world name content"
  have "\<exists>e1 w1. PreProcess ?e ?w = (None, e1, w1)
     \<and> (file' ?e = None \<longrightarrow> chain_ready content e1 w1)
     \<and> (\<forall>j. 0 \<le> j \<and> j < numBlocks e1 \<longrightarrow>
           hashFiles w1 (hashFile e1 j)
             = Some (spec_hash content (BlockSize ?e) (numBlocks e1) j))
     \<and> FileName e1 = FileName ?e \<and> BlockSize e1 = BlockSize ?e \<and> file' e1 = file' ?e
     \<and> getBlockInfo ?e (int (length content)) = Inr (numBlocks e1, highestBlockSize e1)
     \<and> nodes w1 = nodes ?w \<and> handles w1 = (handles ?w)(nextFd ?w := None)"
    using assms
    by (intro PreProcess_miss [where fpath = "''/'' @ name"]) (simp_all add: example_world_facts maxRW_def)
  then show ?thesis by (auto simp: example_world_facts)
qed

subsection \<open>Block sizes past the limits of the run time\<close>

text \<open>
  With a block size above \<open>maxAlloc\<close> the loop of PreProcess hashes and stores the block it
  starts with and then panics at \<^verbatim>\<open>block = make([]byte, e.BlockSize)\<close>, line 144.
\<close>

lemma hash_loop_panic:
  assumes h: "handles w f = Some (p, pos)"
    and n: "nodes w p = Some (RegularFile content)"
    and dir: "cacheDirs w (cacheDir e) = Some True"
    and big: "maxAlloc < BlockSize e"
    and i: "0 \<le> i"
    and len: "length block = min (nat (BlockSize e)) (length content - nat (BlockSize e * i))"
    and cap: "length block \<le> maxRW"
  shows "\<exists>pos'. hash_loop e f i block parentHash w
     = (Some RuntimePanic,
        w\<lparr>handles := (handles w)(f \<mapsto> (p, pos')),
          hashFiles := (hashFiles w)((cacheDir e, i) \<mapsto>
                          sha256 (spec_block content (BlockSize e) i @ parentHash))\<rparr>)"
proof -
  let ?bs = "BlockSize e"
  have bs: "0 < ?bs" using big by (simp add: maxAlloc_def)
  have off: "0 \<le> ?bs * i" using bs i by simp
  from seek_read [OF h n off len cap] obtain pos1 where
    sk: "file_Seek w f (?bs * i) = (None, w\<lparr>handles := (handles w)(f \<mapsto> (p, ?bs * i))\<rparr>)"
    and rd: "file_Read (w\<lparr>handles := (handles w)(f \<mapsto> (p, ?bs * i))\<rparr>) f block
        = ((spec_block content ?bs i, None), w\<lparr>handles := (handles w)(f \<mapsto> (p, pos1))\<rparr>)"
    unfolding spec_block_def by blast
  let ?w2 = "w\<lparr>handles := (handles w)(f \<mapsto> (p, pos1))\<rparr>"
  let ?h = "sha256 (spec_block content ?bs i @ parentHash)"
  have wr: "os_WriteFile ?w2 (hashFile e i) ?h
      = (None, ?w2\<lparr>hashFiles := (hashFiles w)((cacheDir e, i) \<mapsto> ?h)\<rparr>)"
    using dir by (simp add: os_WriteFile_def hashFile_def)
  have mk: "make_bytes ?bs = Inl RuntimePanic"
    using big by (simp add: make_bytes_def)
  have "hash_loop e f i block parentHash w
      = (Some RuntimePanic, ?w2\<lparr>hashFiles := (hashFiles w)((cacheDir e, i) \<mapsto> ?h)\<rparr>)"
    using i sk rd wr mk by (simp add: hash_loop.simps [of e f i block parentHash w])
  then show ?thesis by (intro exI [of _ pos1]) simp
qed

lemma PreProcess_panic:
  assumes reg: "nodes w (FileName e) = Some (RegularFile content)"
    and ab: "abspath w (FileName e) = Some fpath"
    and miss: "cacheDirs w (path_Join ''cache'' (hex_EncodeToString (sha256 (bytes_of fpath)))) = None"
    and big: "maxAlloc < BlockSize e"
    and ne: "content \<noteq> []"
    and gi: "getBlockInfo e (int (length content)) = Inr (nb, hbs)"
    and small: "hbs \<le> int maxRW"
  shows "\<exists>e1 w1. PreProcess e w = (Some RuntimePanic, e1, w1) \<and> numBlocks e1 = nb
     \<and> (\<forall>j. j \<noteq> nb - 1 \<longrightarrow> hashFiles w1 (hashFile e1 j) = hashFiles w (hashFile e1 j))"
proof -
  let ?key = "hex_EncodeToString (sha256 (bytes_of fpath))"
  let ?dir = "path_Join ''cache'' ?key"
  let ?bs = "BlockSize e"
  have bs: "0 < ?bs" using big by (simp add: maxAlloc_def)
  note facts = getBlockInfo_facts [OF bs gi]
  let ?e2 = "e\<lparr>numBlocks := nb, highestBlockSize := hbs, cacheKey := ?key\<rparr>"
  let ?w1 = "w\<lparr>cacheDirs := (cacheDirs w)(?dir \<mapsto> True)\<rparr>"
  let ?f = "nextFd w"
  let ?w2 = "?w1\<lparr>handles := (handles ?w1)(?f \<mapsto> (FileName e, 0)), nextFd := ?f + 1\<rparr>"
  have cd: "cacheDir ?e2 = ?dir" by (simp add: cacheDir_def)
  have st: "os_Stat w (FileName e) = Inr (RegularFile content)"
    using reg by (simp add: os_Stat_def)
  have co: "coerceBlockSize e = e" using bs by (simp add: coerceBlockSize_def)
  have ik: "initCacheKey (e\<lparr>numBlocks := nb, highestBlockSize := hbs\<rparr>) w = (None, ?e2)"
    using ab by (simp add: initCacheKey_def)
  have mkd: "os_MkdirAll w ?dir = (None, ?w1)"
    using miss by (simp add: os_MkdirAll_def)
  have op: "os_Open ?w1 (FileName ?e2) = (Inr ?f, ?w2)"
    using reg by (simp add: os_Open_def)
  have mk: "make_bytes (highestBlockSize ?e2) = Inr (replicate (nat hbs) 0)"
    using facts(1) small maxRW_le_maxAlloc by (simp add: make_bytes_def)
  have nb0: "0 \<le> nb - 1" using facts(6) [OF ne] by simp
  have "\<exists>pos'. hash_loop ?e2 ?f (nb - 1) (replicate (nat hbs) 0) zero32 ?w2
     = (Some RuntimePanic,
        ?w2\<lparr>handles := (handles ?w2)(?f \<mapsto> (FileName e, pos')),
          hashFiles := (hashFiles ?w2)((cacheDir ?e2, nb - 1) \<mapsto>
                          sha256 (spec_block content (BlockSize ?e2) (nb - 1) @ zero32))\<rparr>)"
  proof (rule hash_loop_panic [where pos = 0])
    show "handles ?w2 ?f = Some (FileName e, 0)" by simp
    show "nodes ?w2 (FileName e) = Some (RegularFile content)" using reg by simp
    show "cacheDirs ?w2 (cacheDir ?e2) = Some True" by (simp add: cd)
    show "maxAlloc < BlockSize ?e2" using big by simp
    show "0 \<le> nb - 1" by (rule nb0)
    show "length (replicate (nat hbs) (0::byte))
        = min (nat (BlockSize ?e2)) (length content - nat (BlockSize ?e2 * (nb - 1)))"
      using facts(5) [OF nb0] by simp
    show "length (replicate (nat hbs) (0::byte)) \<le> maxRW"
      using small facts(1) by simp
  qed
  then obtain pos' where
    lp: "hash_loop ?e2 ?f (nb - 1) (replicate (nat hbs) 0) zero32 ?w2
     = (Some RuntimePanic,
        ?w2\<lparr>handles := (handles ?w2)(?f \<mapsto> (FileName e, pos')),
          hashFiles := (hashFiles ?w2)((cacheDir ?e2, nb - 1) \<mapsto>
                          sha256 (spec_block content (BlockSize ?e2) (nb - 1) @ zero32))\<rparr>)"
    by blast
  let ?w3 = "?w2\<lparr>handles := (handles ?w2)(?f \<mapsto> (FileName e, pos')),
          hashFiles := (hashFiles ?w2)((cacheDir ?e2, nb - 1) \<mapsto>
                          sha256 (spec_block content (BlockSize ?e2) (nb - 1) @ zero32))\<rparr>"
  let ?w4 = "?w3\<lparr>handles := (handles ?w3)(?f := None)\<rparr>"
  have hb: "hash_blocks ?e2 ?w1 = (Some RuntimePanic, ?w4)"
    using op mk lp by (simp add: hash_blocks_def file_Close_def)
  have pp: "PreProcess e w = (Some RuntimePanic, ?e2, ?w4)"
    using st co gi ik miss mkd hb by (simp add: PreProcess_def cd)
  have oth: "\<forall>j. j \<noteq> nb - 1 \<longrightarrow> hashFiles ?w4 (hashFile ?e2 j) = hashFiles w (hashFile ?e2 j)"
    by (simp add: hashFile_def)
  show ?thesis
    by (rule exI [of _ ?e2], rule exI [of _ ?w4]) (use pp oth in simp)
qed

text \<open>
  With a block size above \<open>maxRW\<close> a block can be longer than one read returns. The code
  reads once and ignores the count, so the buffer keeps its zero bytes past the first
  \<open>maxRW\<close> bytes. For a file of one such block: PreProcess stores the hash of the buffer,
  request 1 serves the buffer, and the consumer verifies it.
\<close>

lemma capped_seek_read:
  assumes h: "handles w f = Some (p, pos)"
    and n: "nodes w p = Some (RegularFile content)"
    and big: "maxRW < length content"
  shows "file_Seek w f 0 = (None, w\<lparr>handles := (handles w)(f \<mapsto> (p, 0))\<rparr>)"
    and "file_Read (w\<lparr>handles := (handles w)(f \<mapsto> (p, 0))\<rparr>) f (replicate (length content) 0)
       = ((take maxRW content @ replicate (length content - maxRW) 0, None),
          w\<lparr>handles := (handles w)(f \<mapsto> (p, int maxRW))\<rparr>)"
proof -
  show "file_Seek w f 0 = (None, w\<lparr>handles := (handles w)(f \<mapsto> (p, 0))\<rparr>)"
    using h by (simp add: file_Seek_def)
  have m: "min (length content) maxRW = maxRW" using big by simp
  have l: "length (take maxRW content) = maxRW" using big by simp
  have ne: "content \<noteq> []" using big by auto
  show "file_Read (w\<lparr>handles := (handles w)(f \<mapsto> (p, 0))\<rparr>) f (replicate (length content) 0)
       = ((take maxRW content @ replicate (length content - maxRW) 0, None),
          w\<lparr>handles := (handles w)(f \<mapsto> (p, int maxRW))\<rparr>)"
    using n ne big by (simp add: file_Read_def Let_def m l)
qed

lemma getBlockInfo_one_block:
  assumes "content \<noteq> []" and "int (length content) \<le> BlockSize e"
  shows "getBlockInfo e (int (length content)) = Inr (1, int (length content))"
proof -
  let ?n = "int (length content)"
  have pos: "0 \<le> ?n - 1" using assms(1) by (cases content) simp_all
  have bs: "0 < BlockSize e" using assms pos by linarith
  have lt: "?n - 1 < BlockSize e" using assms(2) by simp
  have "(?n - 1) sdiv BlockSize e = 0"
    using sdiv_nonneg [OF pos bs] pos lt by (simp add: div_pos_pos_trivial)
  moreover have "(?n - 1) smod BlockSize e = ?n - 1"
    using smod_nonneg [OF pos bs] pos lt by (simp add: mod_pos_pos_trivial)
  ultimately show ?thesis using bs by (simp add: getBlockInfo_def)
qed

lemma zero_filled_run:
  assumes reg: "nodes w (FileName e) = Some (RegularFile content)"
    and ab: "abspath w (FileName e) = Some fpath"
    and miss: "cacheDirs w (path_Join ''cache'' (hex_EncodeToString (sha256 (bytes_of fpath)))) = None"
    and big: "maxRW < length content"
    and bs: "int (length content) \<le> BlockSize e"
    and al: "BlockSize e \<le> maxAlloc"
    and nil: "file' e = None"
  shows "\<exists>e1 w1 e2 w2.
       PreProcess e w = (None, e1, w1) \<and> numBlocks e1 = 1
     \<and> Request e1 0 w1
         = ((Some (sha256 ((take maxRW content @ replicate (length content - maxRW) 0) @ zero32)),
             None), e1, w1)
     \<and> Request e1 1 w1
         = ((Some ((take maxRW content @ replicate (length content - maxRW) 0) @ zero32), None),
            e2, w2)
     \<and> verify_stream e1 w1
           (sha256 ((take maxRW content @ replicate (length content - maxRW) 0) @ zero32))
           [1..numBlocks e1]
         = Inr ([take maxRW content @ replicate (length content - maxRW) 0], zero32, e2, w2)"
proof -
  let ?n = "length content"
  let ?Z = "take maxRW content @ replicate (?n - maxRW) 0"
  let ?root = "sha256 (?Z @ zero32)"
  let ?key = "hex_EncodeToString (sha256 (bytes_of fpath))"
  let ?dir = "path_Join ''cache'' ?key"
  have ne: "content \<noteq> []" using big by auto
  have bp: "0 < BlockSize e" using bs big by linarith
  have gi: "getBlockInfo e (int ?n) = Inr (1, int ?n)"
    by (rule getBlockInfo_one_block [OF ne bs])
  let ?e2 = "e\<lparr>numBlocks := 1, highestBlockSize := int ?n, cacheKey := ?key\<rparr>"
  let ?w1 = "w\<lparr>cacheDirs := (cacheDirs w)(?dir \<mapsto> True)\<rparr>"
  let ?f = "nextFd w"
  let ?w2 = "?w1\<lparr>handles := (handles ?w1)(?f \<mapsto> (FileName e, 0)), nextFd := ?f + 1\<rparr>"
  have cd: "cacheDir ?e2 = ?dir" by (simp add: cacheDir_def)
  have st: "os_Stat w (FileName e) = Inr (RegularFile content)"
    using reg by (simp add: os_Stat_def)
  have co: "coerceBlockSize e = e" using bp by (simp add: coerceBlockSize_def)
  have ik: "initCacheKey (e\<lparr>numBlocks := 1, highestBlockSize := int ?n\<rparr>) w = (None, ?e2)"
    using ab by (simp add: initCacheKey_def)
  have mkd: "os_MkdirAll w ?dir = (None, ?w1)"
    using miss by (simp add: os_MkdirAll_def)
  have op: "os_Open ?w1 (FileName ?e2) = (Inr ?f, ?w2)"
    using reg by (simp add: os_Open_def)
  have mkh: "make_bytes (int ?n) = Inr (replicate ?n 0)"
    using bs al by (simp add: make_bytes_def)
  have mkb: "make_bytes (BlockSize e) = Inr (replicate (nat (BlockSize e)) 0)"
    using bp al by (simp add: make_bytes_def)
  \<comment> \<open>the loop of PreProcess: one round at index 0\<close>
  have h2: "handles ?w2 ?f = Some (FileName e, 0)" by simp
  have n2: "nodes ?w2 (FileName e) = Some (RegularFile content)" using reg by simp
  note rd2 = capped_seek_read [OF h2 n2 big]
  let ?w3 = "?w2\<lparr>handles := (handles ?w2)(?f \<mapsto> (FileName e, int maxRW)),
                  hashFiles := (hashFiles w)((?dir, 0) \<mapsto> ?root)\<rparr>"
  have wr: "os_WriteFile (?w2\<lparr>handles := (handles ?w2)(?f \<mapsto> (FileName e, int maxRW))\<rparr>)
              (hashFile ?e2 0) ?root = (None, ?w3)"
    by (simp add: os_WriteFile_def hashFile_def cd)
  have stop: "hash_loop ?e2 ?f (- 1) (replicate (nat (BlockSize e)) 0) ?root ?w3 = (None, ?w3)"
    by (simp add: hash_loop.simps [of _ _ "- 1"])
  have lp: "hash_loop ?e2 ?f 0 (replicate ?n 0) zero32 ?w2 = (None, ?w3)"
    using rd2 wr mkb stop by (simp add: hash_loop.simps [of _ _ 0])
  let ?w4 = "?w3\<lparr>handles := (handles ?w3)(?f := None)\<rparr>"
  have hb: "hash_blocks ?e2 ?w1 = (None, ?w4)"
    using op mkh lp by (simp add: hash_blocks_def file_Close_def)
  have pp: "PreProcess e w = (None, ?e2, ?w4)"
    using st co gi ik miss mkd hb by (simp add: PreProcess_def cd)
  \<comment> \<open>serving\<close>
  have r0: "Request ?e2 0 ?w4 = ((Some ?root, None), ?e2, ?w4)"
    by (simp add: Request_def os_ReadFile_def hashFile_def cd)
  let ?g = "nextFd ?w4"
  let ?w5 = "?w4\<lparr>handles := (handles ?w4)(?g \<mapsto> (FileName e, 0)), nextFd := ?g + 1\<rparr>"
  have eo: "ensure_open ?e2 ?w4 = (Inr ?g, ?e2\<lparr>file' := Some ?g\<rparr>, ?w5)"
    using nil reg by (simp add: ensure_open_def os_Open_def)
  have h5: "handles ?w5 ?g = Some (FileName e, 0)" by simp
  have n5: "nodes ?w5 (FileName e) = Some (RegularFile content)" using reg by simp
  note rd5 = capped_seek_read [OF h5 n5 big]
  let ?w6 = "?w5\<lparr>handles := (handles ?w5)(?g \<mapsto> (FileName e, int maxRW))\<rparr>"
  have r1: "Request ?e2 1 ?w4 = ((Some (?Z @ zero32), None), ?e2\<lparr>file' := Some ?g\<rparr>, ?w6)"
    using eo rd5 mkh by (simp add: Request_def Let_def)
  have zne: "?Z \<noteq> []" using big ne by simp
  have dc: "Decode ?root (?Z @ zero32) = Inr (?Z, zero32)"
    by (rule Decode_chain [OF zne]) simp
  have vs: "verify_stream ?e2 ?w4 ?root [1..numBlocks ?e2]
      = Inr ([?Z], zero32, ?e2\<lparr>file' := Some ?g\<rparr>, ?w6)"
    using r1 dc by (simp add: upto_rec1 [of 1 1])
  show ?thesis
    by (rule exI [of _ ?e2], rule exI [of _ ?w4], rule exI [of _ "?e2\<lparr>file' := Some ?g\<rparr>"],
        rule exI [of _ ?w6]) (use pp r0 r1 vs in simp)
qed

text \<open>
  C1, as the code has it. For a regular file and a block size from 1 to \<open>maxRW\<close> (1 GiB,
  the most one read returns), on a cache miss (no cache directory for the file's key yet)
  PreProcess succeeds and leaves, for every block index i with 0 <= i < numBlocks, the
  chain hash of block i in the cache store under index i, where the chain hash of block
  numBlocks - 1 is SHA256(block || zero32) and the chain hash of block i is
  SHA256(block i || chain hash of block i + 1). The loop runs from index numBlocks - 1
  down to 0.
\<close>

theorem PreProcess_writes_chain:
  assumes "nodes w (FileName e) = Some (RegularFile content)"
    and "0 < BlockSize e"
    and "abspath w (FileName e) = Some fpath"
    and "cacheDirs w (path_Join ''cache'' (hex_EncodeToString (sha256 (bytes_of fpath)))) = None"
    and "BlockSize e \<le> int maxRW"
  shows "\<exists>e1 w1. PreProcess e w = (None, e1, w1)
     \<and> getBlockInfo e (int (length content)) = Inr (numBlocks e1, highestBlockSize e1)
     \<and> (\<forall>i. 0 \<le> i \<and> i < numBlocks e1 \<longrightarrow>
           hashFiles w1 (hashFile e1 i)
             = Some (spec_hash content (BlockSize e) (numBlocks e1) i))"
proof -
  from PreProcess_miss [OF assms] obtain e1 w1 where
    "PreProcess e w = (None, e1, w1)"
    "\<forall>j. 0 \<le> j \<and> j < numBlocks e1 \<longrightarrow>
           hashFiles w1 (hashFile e1 j) = Some (spec_hash content (BlockSize e) (numBlocks e1) j)"
    "getBlockInfo e (int (length content)) = Inr (numBlocks e1, highestBlockSize e1)"
    by (elim exE conjE) (rule that; assumption)
  then show ?thesis
    by (intro exI [of _ e1] exI [of _ w1] conjI)
qed

theorem PreProcess_writes_chain_witness:
  "\<exists>e1 w1. PreProcess (new_Encoder ''f'' 2) (one_file_world ''f'' [1, 2, 3]) = (None, e1, w1)
     \<and> numBlocks e1 = 2
     \<and> hashFiles w1 (hashFile e1 1) = Some (sha256 ([3] @ zero32))
     \<and> hashFiles w1 (hashFile e1 0) = Some (sha256 ([1, 2] @ sha256 ([3] @ zero32)))"
proof -
  let ?e = "new_Encoder ''f'' 2" and ?w = "one_file_world ''f'' [1, 2, 3]"
  have "\<exists>e1 w1. PreProcess ?e ?w = (None, e1, w1)
     \<and> getBlockInfo ?e (int (length [1, 2, 3 :: byte])) = Inr (numBlocks e1, highestBlockSize e1)
     \<and> (\<forall>i. 0 \<le> i \<and> i < numBlocks e1 \<longrightarrow>
           hashFiles w1 (hashFile e1 i)
             = Some (spec_hash [1, 2, 3] (BlockSize ?e) (numBlocks e1) i))"
    by (rule PreProcess_writes_chain [where fpath = "''/f''"]) (simp_all add: example_world_facts maxRW_def)
  then obtain e1 w1 where pp: "PreProcess ?e ?w = (None, e1, w1)"
    and gi: "getBlockInfo ?e (int (length [1, 2, 3 :: byte])) = Inr (numBlocks e1, highestBlockSize e1)"
    and hs: "\<forall>i. 0 \<le> i \<and> i < numBlocks e1 \<longrightarrow>
           hashFiles w1 (hashFile e1 i)
             = Some (spec_hash [1, 2, 3] (BlockSize ?e) (numBlocks e1) i)"
    by (elim exE conjE) (rule that; assumption)
  have nb: "numBlocks e1 = 2"
    using gi by (simp add: getBlockInfo_def example_world_facts signed_divide_int_def)
  have c1: "spec_hash [1, 2, 3] 2 2 1 = sha256 ([3] @ zero32)"
    by (simp add: spec_hash.simps [of _ _ _ 1] spec_block_def)
  have c0: "spec_hash [1, 2, 3] 2 2 0 = sha256 ([1, 2] @ sha256 ([3] @ zero32))"
    by (simp add: spec_hash.simps [of _ _ _ 0] c1 spec_block_def)
  from hs nb have "hashFiles w1 (hashFile e1 1) = Some (spec_hash [1, 2, 3] 2 2 1)"
    "hashFiles w1 (hashFile e1 0) = Some (spec_hash [1, 2, 3] 2 2 0)"
    by (simp_all add: example_world_facts maxRW_def)
  with pp nb c0 c1 show ?thesis by simp
qed

text \<open>
  The claim as stated covers every positive block size. With block size \<open>2^62\<close> on the
  file 1, 2, 3 PreProcess panics instead of returning. With block size \<open>2^48 + 1\<close> on a
  file of \<open>2^48 + 2\<close> zero bytes there are two blocks; PreProcess stores the hash of block 1,
  panics, and never stores a hash under index 0.
\<close>

theorem PreProcess_writes_chain_counterexample:
  "(case PreProcess (new_Encoder ''f'' 4611686018427387904) (one_file_world ''f'' [1, 2, 3]) of
      (err, e1, w1) \<Rightarrow> err = Some RuntimePanic)
   \<and> (case PreProcess (new_Encoder ''f'' 281474976710657)
              (one_file_world ''f'' (replicate 281474976710658 0)) of
      (err, e1, w1) \<Rightarrow>
        err = Some RuntimePanic \<and> numBlocks e1 = 2 \<and> hashFiles w1 (hashFile e1 0) = None)"
proof -
  let ?ea = "new_Encoder ''f'' 4611686018427387904" and ?wa = "one_file_world ''f'' [1, 2, 3]"
  have "\<exists>e1 w1. PreProcess ?ea ?wa = (Some RuntimePanic, e1, w1) \<and> numBlocks e1 = 1
     \<and> (\<forall>j. j \<noteq> 1 - 1 \<longrightarrow> hashFiles w1 (hashFile e1 j) = hashFiles ?wa (hashFile e1 j))"
    by (rule PreProcess_panic [where fpath = "''/f''" and content = "[1, 2, 3]" and hbs = 3])
       (simp_all add: example_world_facts maxRW_def maxAlloc_def getBlockInfo_def
          signed_divide_int_def signed_modulo_int_def)
  then have a: "case PreProcess ?ea ?wa of (err, e1, w1) \<Rightarrow> err = Some RuntimePanic"
    by auto
  let ?eb = "new_Encoder ''f'' 281474976710657"
  let ?wb = "one_file_world ''f'' (replicate 281474976710658 0)"
  have "\<exists>e1 w1. PreProcess ?eb ?wb = (Some RuntimePanic, e1, w1) \<and> numBlocks e1 = 2
     \<and> (\<forall>j. j \<noteq> 2 - 1 \<longrightarrow> hashFiles w1 (hashFile e1 j) = hashFiles ?wb (hashFile e1 j))"
    by (rule PreProcess_panic [where fpath = "''/f''" and content = "replicate 281474976710658 0"
          and hbs = 1])
       (simp_all add: example_world_facts maxRW_def maxAlloc_def getBlockInfo_def
          signed_divide_int_def signed_modulo_int_def)
  then obtain e1 w1 where pb: "PreProcess ?eb ?wb = (Some RuntimePanic, e1, w1)"
    and nb: "numBlocks e1 = 2"
    and oth: "\<forall>j. j \<noteq> 2 - 1 \<longrightarrow> hashFiles w1 (hashFile e1 j) = hashFiles ?wb (hashFile e1 j)"
    by (elim exE conjE) (rule that; assumption)
  have "hashFiles w1 (hashFile e1 0) = hashFiles ?wb (hashFile e1 0)"
    using oth by simp
  then have "hashFiles w1 (hashFile e1 0) = None"
    by (simp add: one_file_world_def)
  with pb nb have b: "case PreProcess ?eb ?wb of
      (err, e1, w1) \<Rightarrow>
        err = Some RuntimePanic \<and> numBlocks e1 = 2 \<and> hashFiles w1 (hashFile e1 0) = None"
    by simp
  from a b show ?thesis by simp
qed

section \<open>Serving\<close>

lemma Request_root:
  assumes cr: "chain_ready content e w" and nb: "1 \<le> numBlocks e"
  shows "Request e 0 w
     = ((Some (spec_hash content (BlockSize e) (numBlocks e) 0), None), e, w)"
proof -
  have "hashFiles w (hashFile e 0) = Some (spec_hash content (BlockSize e) (numBlocks e) 0)"
    using cr nb by (simp add: chain_ready_def)
  then show ?thesis by (simp add: Request_def os_ReadFile_def)
qed

lemma getBlockInfo_file [simp]: "getBlockInfo (e\<lparr>file' := x\<rparr>) s = getBlockInfo e s"
  by (simp add: getBlockInfo_def)

lemma hashFile_file [simp]: "hashFile (e\<lparr>file' := x\<rparr>) i = hashFile e i"
  by (simp add: hashFile_def cacheDir_def)

lemma ensure_open_ready:
  assumes cr: "chain_ready content e w"
  shows "\<exists>f w1. ensure_open e w = (Inr f, e\<lparr>file' := Some f\<rparr>, w1)
     \<and> chain_ready content (e\<lparr>file' := Some f\<rparr>) w1
     \<and> (file' e = None \<longrightarrow> f = nextFd w \<and> nextFd w1 = nextFd w + 1)
     \<and> (file' e \<noteq> None \<longrightarrow> file' e = Some f \<and> w1 = w)
     \<and> hashFiles w1 = hashFiles w \<and> nodes w1 = nodes w"
proof (cases "file' e")
  case None
  let ?f = "nextFd w"
  let ?w1 = "w\<lparr>handles := (handles w)(?f \<mapsto> (FileName e, 0)), nextFd := ?f + 1\<rparr>"
  have "ensure_open e w = (Inr ?f, e\<lparr>file' := Some ?f\<rparr>, ?w1)"
    using None cr by (simp add: ensure_open_def os_Open_def chain_ready_def)
  moreover have "chain_ready content (e\<lparr>file' := Some ?f\<rparr>) ?w1"
    using cr by (simp add: chain_ready_def)
  ultimately show ?thesis using None by simp
next
  case (Some f)
  then have eo: "ensure_open e w = (Inr f, e, w)" by (simp add: ensure_open_def)
  have ee: "e\<lparr>file' := Some f\<rparr> = e" using Some by simp
  show ?thesis
    by (rule exI [of _ f], rule exI [of _ w]) (simp add: ee eo Some cr)
qed

lemma Request_block:
  assumes cr: "chain_ready content e w" and n: "1 \<le> n" "n \<le> numBlocks e"
  shows "\<exists>f pos w'. Request e n w
       = ((Some (spec_block content (BlockSize e) (n - 1)
                  @ (if n = numBlocks e then zero32
                     else spec_hash content (BlockSize e) (numBlocks e) n)), None),
          e\<lparr>file' := Some f\<rparr>, w')
     \<and> chain_ready content (e\<lparr>file' := Some f\<rparr>) w'
     \<and> handles w' f = Some (FileName e, pos)
     \<and> (file' e = None \<longrightarrow> f = nextFd w \<and> nextFd w' = nextFd w + 1)
     \<and> (file' e \<noteq> None \<longrightarrow> file' e = Some f \<and> nextFd w' = nextFd w)"
proof -
  let ?bs = "BlockSize e" and ?nb = "numBlocks e" and ?hbs = "highestBlockSize e"
  from cr have bs: "0 < ?bs"
    and gi: "getBlockInfo e (int (length content)) = Inr (?nb, ?hbs)"
    and reg: "nodes w (FileName e) = Some (RegularFile content)"
    and cap: "?bs \<le> int maxRW"
    by (simp_all add: chain_ready_def)
  note facts = getBlockInfo_facts [OF bs gi]
  from ensure_open_ready [OF cr] obtain f w1 where
    eo: "ensure_open e w = (Inr f, e\<lparr>file' := Some f\<rparr>, w1)"
    and cr1: "chain_ready content (e\<lparr>file' := Some f\<rparr>) w1"
    and fresh: "file' e = None \<longrightarrow> f = nextFd w \<and> nextFd w1 = nextFd w + 1"
    and reuse: "file' e \<noteq> None \<longrightarrow> file' e = Some f \<and> w1 = w"
    and hf1: "hashFiles w1 = hashFiles w" and nd1: "nodes w1 = nodes w"
    by (elim exE conjE) (rule that; assumption)
  from cr1 obtain pos1 where h1: "handles w1 f = Some (FileName e, pos1)"
    by (auto simp: chain_ready_def)
  have reg1: "nodes w1 (FileName e) = Some (RegularFile content)" using reg nd1 by simp
  let ?i = "n - 1"
  let ?rs = "if ?i = ?nb - 1 then ?hbs else ?bs"
  have rs0: "0 \<le> ?rs" using facts(1) bs by simp
  have rs1: "?rs \<le> int maxRW" using facts(9) cap by simp
  have mk: "make_bytes ?rs = Inr (replicate (nat ?rs) 0)"
    using rs0 rs1 maxRW_le_maxAlloc by (simp add: make_bytes_def)
  have rcap: "length (replicate (nat ?rs) (0::byte)) \<le> maxRW"
    using rs0 rs1 by simp
  have off: "0 \<le> ?bs * ?i" using bs n(1) by simp
  have nb0: "0 \<le> ?nb - 1" using n by simp
  have len: "length (replicate (nat ?rs) (0::byte))
      = min (nat ?bs) (length content - nat (?bs * ?i))"
  proof (cases "?i = ?nb - 1")
    case True
    then show ?thesis using facts(5) [OF nb0] by simp
  next
    case False
    then have "?i + 1 \<le> ?nb - 1" using n(2) by simp
    then have "?bs * (?i + 1) \<le> ?bs * (?nb - 1)" using bs by (simp add: mult_left_mono)
    moreover have "?bs * (?i + 1) = ?bs * ?i + ?bs" by (simp add: algebra_simps)
    ultimately have "?bs * ?i + ?bs \<le> int (length content)"
      using facts(4) [OF nb0] by linarith
    then have "nat ?bs \<le> length content - nat (?bs * ?i)" using off by linarith
    with False show ?thesis by simp
  qed
  from seek_read [OF h1 reg1 off len rcap] obtain pos' where
    sk: "file_Seek w1 f (?bs * ?i) = (None, w1\<lparr>handles := (handles w1)(f \<mapsto> (FileName e, ?bs * ?i))\<rparr>)"
    and rd: "file_Read (w1\<lparr>handles := (handles w1)(f \<mapsto> (FileName e, ?bs * ?i))\<rparr>) f
               (replicate (nat ?rs) 0)
        = ((spec_block content ?bs ?i, None), w1\<lparr>handles := (handles w1)(f \<mapsto> (FileName e, pos'))\<rparr>)"
    unfolding spec_block_def by blast
  let ?w3 = "w1\<lparr>handles := (handles w1)(f \<mapsto> (FileName e, pos'))\<rparr>"
  have rf: "os_ReadFile ?w3 (hashFile e n) = Inr (spec_hash content ?bs ?nb n)" if "n \<noteq> ?nb"
  proof -
    have "hashFiles w (hashFile e n) = Some (spec_hash content ?bs ?nb n)"
      using cr n that by (simp add: chain_ready_def)
    then show ?thesis using hf1 by (simp add: os_ReadFile_def)
  qed
  have req: "Request e n w
       = ((Some (spec_block content ?bs ?i
                  @ (if n = ?nb then zero32 else spec_hash content ?bs ?nb n)), None),
          e\<lparr>file' := Some f\<rparr>, ?w3)"
  proof (cases "n = ?nb")
    case True
    then show ?thesis
      using n eo sk rd mk by (simp add: Request_def Let_def)
  next
    case False
    then show ?thesis
      using n eo sk rd mk rf [OF False] by (simp add: Request_def Let_def)
  qed
  have cr3: "chain_ready content (e\<lparr>file' := Some f\<rparr>) ?w3"
    using cr1 by (auto simp: chain_ready_def)
  have h3: "handles ?w3 f = Some (FileName e, pos')" by simp
  have nf: "nextFd ?w3 = nextFd w1" by simp
  have a: "file' e = None \<longrightarrow> f = nextFd w \<and> nextFd ?w3 = nextFd w + 1"
    using fresh nf by simp
  have b: "file' e \<noteq> None \<longrightarrow> file' e = Some f \<and> nextFd ?w3 = nextFd w"
    using reuse nf by auto
  show ?thesis
    by (rule exI [of _ f], rule exI [of _ pos'], rule exI [of _ ?w3])
       (intro conjI req cr3 h3 a b)
qed

lemma spec_block_nonempty:
  assumes "0 < bs" and "0 \<le> i" and "bs * i < int (length content)"
  shows "spec_block content bs i \<noteq> []"
proof -
  have "0 \<le> bs * i" using assms(1,2) by simp
  then have "nat (bs * i) < length content" using assms(3) by linarith
  then have "drop (nat (bs * i)) content \<noteq> []" by simp
  moreover have "0 < nat bs" using assms(1) by simp
  ultimately show ?thesis by (simp add: spec_block_def)
qed

lemma concat_blocks:
  assumes "0 < bs" and "0 \<le> k"
  shows "concat (map (\<lambda>n. spec_block content bs (n - 1)) [1..k]) = take (nat (bs * k)) content"
  using assms(2)
proof (induction k rule: int_ge_induct)
  case base
  show ?case by simp
next
  case (step k)
  have u: "[1..k + 1] = [1..k] @ [k + 1]"
    using step.hyps by (simp add: upto_rec2)
  have n: "nat (bs * (k + 1)) = nat (bs * k) + nat bs"
  proof -
    have "0 \<le> bs * k" using assms(1) step.hyps by simp
    moreover have "bs * (k + 1) = bs * k + bs" by (simp add: algebra_simps)
    ultimately show ?thesis using assms(1) by (simp add: nat_add_distrib)
  qed
  show ?case
    unfolding u n using step.IH by (simp add: spec_block_def take_add)
qed

lemma Requests_run:
  assumes "chain_ready content e w" and "1 \<le> i" and "i \<le> numBlocks e + 1"
  shows "\<exists>fo w2. Requests e w [i..numBlocks e]
       = (map (\<lambda>n. (Some (spec_block content (BlockSize e) (n - 1)
                           @ (if n = numBlocks e then zero32
                              else spec_hash content (BlockSize e) (numBlocks e) n)), None))
            [i..numBlocks e],
          e\<lparr>file' := fo\<rparr>, w2)
     \<and> chain_ready content (e\<lparr>file' := fo\<rparr>) w2
     \<and> (file' e \<noteq> None \<or> i \<le> numBlocks e \<longrightarrow> fo \<noteq> None)
     \<and> (file' e \<noteq> None \<longrightarrow> fo = file' e \<and> nextFd w2 = nextFd w)
     \<and> (file' e = None \<and> i \<le> numBlocks e \<longrightarrow> fo = Some (nextFd w) \<and> nextFd w2 = nextFd w + 1)"
  using assms
proof (induction "nat (numBlocks e + 1 - i)" arbitrary: i e w)
  case 0
  then have "[i..numBlocks e] = []" "\<not> i \<le> numBlocks e" by simp_all
  moreover have "e\<lparr>file' := file' e\<rparr> = e" by simp
  ultimately show ?case
    using "0.prems"(1) by (intro exI [of _ "file' e"] exI [of _ w]) simp
next
  case (Suc k)
  then have le: "i \<le> numBlocks e" by linarith
  then have u: "[i..numBlocks e] = i # [i + 1..numBlocks e]" by (simp add: upto_rec1)
  from Request_block [OF Suc.prems(1,2) le] obtain f pos w1 where
    rq: "Request e i w
       = ((Some (spec_block content (BlockSize e) (i - 1)
                  @ (if i = numBlocks e then zero32
                     else spec_hash content (BlockSize e) (numBlocks e) i)), None),
          e\<lparr>file' := Some f\<rparr>, w1)"
    and cr1: "chain_ready content (e\<lparr>file' := Some f\<rparr>) w1"
    and h1: "handles w1 f = Some (FileName e, pos)"
    and fresh: "file' e = None \<longrightarrow> f = nextFd w \<and> nextFd w1 = nextFd w + 1"
    and reuse: "file' e \<noteq> None \<longrightarrow> file' e = Some f \<and> nextFd w1 = nextFd w"
    by (elim exE conjE) (rule that; assumption)
  let ?e1 = "e\<lparr>file' := Some f\<rparr>"
  let ?resp = "\<lambda>n. (Some (spec_block content (BlockSize e) (n - 1)
                           @ (if n = numBlocks e then zero32
                              else spec_hash content (BlockSize e) (numBlocks e) n)), None :: error option)"
  have k: "k = nat (numBlocks ?e1 + 1 - (i + 1))" using Suc.hyps(2) by simp
  have "\<exists>fo w2. Requests ?e1 w1 [i + 1..numBlocks ?e1]
       = (map (\<lambda>n. (Some (spec_block content (BlockSize ?e1) (n - 1)
                           @ (if n = numBlocks ?e1 then zero32
                              else spec_hash content (BlockSize ?e1) (numBlocks ?e1) n)), None))
            [i + 1..numBlocks ?e1],
          ?e1\<lparr>file' := fo\<rparr>, w2)
     \<and> chain_ready content (?e1\<lparr>file' := fo\<rparr>) w2
     \<and> (file' ?e1 \<noteq> None \<or> i + 1 \<le> numBlocks ?e1 \<longrightarrow> fo \<noteq> None)
     \<and> (file' ?e1 \<noteq> None \<longrightarrow> fo = file' ?e1 \<and> nextFd w2 = nextFd w1)
     \<and> (file' ?e1 = None \<and> i + 1 \<le> numBlocks ?e1 \<longrightarrow> fo = Some (nextFd w1) \<and> nextFd w2 = nextFd w1 + 1)"
    using Suc.prems(2) le by (intro Suc.hyps(1) [OF k cr1]) simp_all
  then have "\<exists>fo w2. Requests ?e1 w1 [i + 1..numBlocks e]
       = (map ?resp [i + 1..numBlocks e], e\<lparr>file' := fo\<rparr>, w2)
     \<and> chain_ready content (e\<lparr>file' := fo\<rparr>) w2
     \<and> fo = Some f \<and> nextFd w2 = nextFd w1"
    by (simp cong: if_cong)
  then obtain fo w2 where
    rest: "Requests ?e1 w1 [i + 1..numBlocks e]
       = (map ?resp [i + 1..numBlocks e], e\<lparr>file' := fo\<rparr>, w2)"
    and cr2: "chain_ready content (e\<lparr>file' := fo\<rparr>) w2"
    and fo: "fo = Some f" and nf: "nextFd w2 = nextFd w1"
    by (elim exE conjE) (rule that; assumption)
  have run: "Requests e w [i..numBlocks e] = (map ?resp [i..numBlocks e], e\<lparr>file' := fo\<rparr>, w2)"
    unfolding u using rq rest by simp
  have a: "file' e \<noteq> None \<or> i \<le> numBlocks e \<longrightarrow> fo \<noteq> None" using fo by simp
  have b: "file' e \<noteq> None \<longrightarrow> fo = file' e \<and> nextFd w2 = nextFd w"
    using fo nf reuse by auto
  have c: "file' e = None \<and> i \<le> numBlocks e \<longrightarrow> fo = Some (nextFd w) \<and> nextFd w2 = nextFd w + 1"
    using fo nf fresh by auto
  show ?case
    by (rule exI [of _ fo], rule exI [of _ w2]) (intro conjI run cr2 a b c)
qed

lemma Requests_append:
  "Requests e w (xs @ ys)
     = (case Requests e w xs of
          (rs, e1, w1) \<Rightarrow> (case Requests e1 w1 ys of (rs', e2, w2) \<Rightarrow> (rs @ rs', e2, w2)))"
  by (induction xs arbitrary: e w) (auto split: prod.splits)

text \<open>
  C4, as the code has it. Request n serves block n - 1. After PreProcess has built the
  chain on a cache miss, with a block size from 1 to \<open>maxRW\<close> (1 GiB, the most one read
  returns), for a file with at least one block: request 0 returns the root hash; requests
  1 .. numBlocks - 1 return block n - 1 followed by the chain hash of block n; request
  numBlocks returns the last block followed by 32 zero bytes; request numBlocks + 1 and
  every request beyond return no bytes and the end-of-stream error. For a file of 10240
  bytes and block size 1024, numBlocks is 10 and highestBlockSize is 1024, so requests
  0 .. 10 succeed, request 10 carries the zero trailer and request 11 is end-of-stream.
\<close>

theorem request_protocol:
  assumes "nodes w (FileName e) = Some (RegularFile content)"
    and "0 < BlockSize e"
    and "abspath w (FileName e) = Some fpath"
    and "cacheDirs w (path_Join ''cache'' (hex_EncodeToString (sha256 (bytes_of fpath)))) = None"
    and "file' e = None"
    and "content \<noteq> [] \<or> 1 < BlockSize e"
    and "BlockSize e \<le> int maxRW"
  shows "\<exists>e1 w1 fo w2.
       PreProcess e w = (None, e1, w1)
     \<and> (length content = 10240 \<and> BlockSize e = 1024 \<longrightarrow>
          numBlocks e1 = 10 \<and> highestBlockSize e1 = 1024)
     \<and> Requests e1 w1 [0..numBlocks e1 + 1]
        = ((Some (spec_hash content (BlockSize e) (numBlocks e1) 0), None)
           # map (\<lambda>n. (Some (spec_block content (BlockSize e) (n - 1)
                              @ spec_hash content (BlockSize e) (numBlocks e1) n), None))
               [1..numBlocks e1 - 1]
           @ [(Some (spec_block content (BlockSize e) (numBlocks e1 - 1) @ zero32), None),
              (None, Some EndOfStream)],
           e1\<lparr>file' := fo\<rparr>, w2)
     \<and> (\<forall>n. numBlocks e1 < n \<longrightarrow>
          Request (e1\<lparr>file' := fo\<rparr>) n w2 = ((None, Some EndOfStream), e1\<lparr>file' := fo\<rparr>, w2))"
proof -
  from PreProcess_miss [OF assms(1-4) assms(7)] assms(5) obtain e1 w1 where
    pp: "PreProcess e w = (None, e1, w1)" and cr: "chain_ready content e1 w1"
    and be: "BlockSize e1 = BlockSize e"
    and gie: "getBlockInfo e (int (length content)) = Inr (numBlocks e1, highestBlockSize e1)"
    by (elim exE conjE) (rule that; simp)
  let ?bs = "BlockSize e" and ?nb = "numBlocks e1"
  from cr have bs: "0 < BlockSize e1"
    and gi: "getBlockInfo e1 (int (length content)) = Inr (?nb, highestBlockSize e1)"
    by (simp_all add: chain_ready_def)
  have nb: "1 \<le> ?nb"
    using getBlockInfo_facts(6,8) [OF bs gi] assms(6) be by auto
  have conc: "length content = 10240 \<and> ?bs = 1024 \<longrightarrow> ?nb = 10 \<and> highestBlockSize e1 = 1024"
    using gie by (auto simp: getBlockInfo_def signed_divide_int_def signed_modulo_int_def)
  let ?resp = "\<lambda>n. (Some (spec_block content ?bs (n - 1)
                           @ (if n = ?nb then zero32 else spec_hash content ?bs ?nb n)),
                     None :: error option)"
  have r0: "Request e1 0 w1 = ((Some (spec_hash content ?bs ?nb 0), None), e1, w1)"
    using Request_root [OF cr nb] be by simp
  have "\<exists>fo w2. Requests e1 w1 [1..?nb]
       = (map (\<lambda>n. (Some (spec_block content (BlockSize e1) (n - 1)
                           @ (if n = ?nb then zero32
                              else spec_hash content (BlockSize e1) ?nb n)), None))
            [1..?nb],
          e1\<lparr>file' := fo\<rparr>, w2)
     \<and> chain_ready content (e1\<lparr>file' := fo\<rparr>) w2
     \<and> (file' e1 \<noteq> None \<or> 1 \<le> ?nb \<longrightarrow> fo \<noteq> None)
     \<and> (file' e1 \<noteq> None \<longrightarrow> fo = file' e1 \<and> nextFd w2 = nextFd w1)
     \<and> (file' e1 = None \<and> 1 \<le> ?nb \<longrightarrow> fo = Some (nextFd w1) \<and> nextFd w2 = nextFd w1 + 1)"
    using nb by (intro Requests_run [OF cr]) simp_all
  then obtain fo w2 where
    run: "Requests e1 w1 [1..?nb] = (map ?resp [1..?nb], e1\<lparr>file' := fo\<rparr>, w2)"
    unfolding be by (elim exE conjE) (rule that; assumption)
  have eos: "Request (e1\<lparr>file' := fo\<rparr>) n w2 = ((None, Some EndOfStream), e1\<lparr>file' := fo\<rparr>, w2)"
    if "?nb < n" for n
    using that nb by (intro Request_EndOfStream) simp_all
  have u0: "[0..?nb + 1] = 0 # ([1..?nb] @ [?nb + 1])"
    using nb by (simp add: upto_rec1 [of 0] upto_rec2 [of 1])
  have u1: "[1..?nb] = [1..?nb - 1] @ [?nb]"
    using nb by (rule upto_rec2)
  have m: "map ?resp [1..?nb]
      = map (\<lambda>n. (Some (spec_block content ?bs (n - 1) @ spec_hash content ?bs ?nb n), None))
          [1..?nb - 1]
        @ [(Some (spec_block content ?bs (?nb - 1) @ zero32), None)]"
    unfolding u1 by simp
  have all: "Requests e1 w1 [0..?nb + 1]
        = ((Some (spec_hash content ?bs ?nb 0), None)
           # map (\<lambda>n. (Some (spec_block content ?bs (n - 1) @ spec_hash content ?bs ?nb n), None))
               [1..?nb - 1]
           @ [(Some (spec_block content ?bs (?nb - 1) @ zero32), None), (None, Some EndOfStream)],
           e1\<lparr>file' := fo\<rparr>, w2)"
    unfolding u0 using r0 run eos [of "?nb + 1"] m by (simp add: Requests_append)
  show ?thesis
    by (rule exI [of _ e1], rule exI [of _ w1], rule exI [of _ fo], rule exI [of _ w2])
       (use pp conc all eos in blast)
qed

theorem request_protocol_witness:
  "\<exists>e1 w1 rs fo w2.
       PreProcess (new_Encoder ''f'' 1024) (one_file_world ''f'' (replicate 10240 0)) = (None, e1, w1)
     \<and> numBlocks e1 = 10 \<and> highestBlockSize e1 = 1024
     \<and> Requests e1 w1 [0..11]
        = (rs @ [(Some (replicate 1024 0 @ zero32), None), (None, Some EndOfStream)],
           e1\<lparr>file' := fo\<rparr>, w2)
     \<and> length rs = 10"
proof -
  let ?e = "new_Encoder ''f'' 1024" and ?w = "one_file_world ''f'' (replicate 10240 0)"
  let ?c = "replicate 10240 (0 :: byte)"
  have "\<exists>e1 w1 fo w2.
       PreProcess ?e ?w = (None, e1, w1)
     \<and> (length ?c = 10240 \<and> BlockSize ?e = 1024 \<longrightarrow>
          numBlocks e1 = 10 \<and> highestBlockSize e1 = 1024)
     \<and> Requests e1 w1 [0..numBlocks e1 + 1]
        = ((Some (spec_hash ?c (BlockSize ?e) (numBlocks e1) 0), None)
           # map (\<lambda>n. (Some (spec_block ?c (BlockSize ?e) (n - 1)
                              @ spec_hash ?c (BlockSize ?e) (numBlocks e1) n), None))
               [1..numBlocks e1 - 1]
           @ [(Some (spec_block ?c (BlockSize ?e) (numBlocks e1 - 1) @ zero32), None),
              (None, Some EndOfStream)],
           e1\<lparr>file' := fo\<rparr>, w2)
     \<and> (\<forall>n. numBlocks e1 < n \<longrightarrow>
          Request (e1\<lparr>file' := fo\<rparr>) n w2 = ((None, Some EndOfStream), e1\<lparr>file' := fo\<rparr>, w2))"
    by (rule request_protocol [where fpath = "''/f''"]) (simp_all add: example_world_facts maxRW_def)
  then obtain e1 w1 fo w2 where pp: "PreProcess ?e ?w = (None, e1, w1)"
    and conc: "length ?c = 10240 \<and> BlockSize ?e = 1024 \<longrightarrow>
          numBlocks e1 = 10 \<and> highestBlockSize e1 = 1024"
    and rq: "Requests e1 w1 [0..numBlocks e1 + 1]
        = ((Some (spec_hash ?c (BlockSize ?e) (numBlocks e1) 0), None)
           # map (\<lambda>n. (Some (spec_block ?c (BlockSize ?e) (n - 1)
                              @ spec_hash ?c (BlockSize ?e) (numBlocks e1) n), None))
               [1..numBlocks e1 - 1]
           @ [(Some (spec_block ?c (BlockSize ?e) (numBlocks e1 - 1) @ zero32), None),
              (None, Some EndOfStream)],
           e1\<lparr>file' := fo\<rparr>, w2)"
    by (elim exE conjE) (rule that; assumption)
  from conc have nb: "numBlocks e1 = 10" "highestBlockSize e1 = 1024"
    by (simp_all add: example_world_facts maxRW_def)
  have b: "spec_block ?c 1024 9 = replicate 1024 0"
    by (simp add: spec_block_def)
  let ?rs = "(Some (spec_hash ?c 1024 10 0), None)
           # map (\<lambda>n. (Some (spec_block ?c 1024 (n - 1) @ spec_hash ?c 1024 10 n), None :: error option))
               [1..9]"
  have "Requests e1 w1 [0..11]
        = (?rs @ [(Some (replicate 1024 0 @ zero32), None), (None, Some EndOfStream)],
           e1\<lparr>file' := fo\<rparr>, w2)"
    using rq by (simp add: nb example_world_facts b)
  moreover have "length ?rs = 10" by simp
  ultimately show ?thesis
    using pp nb
    by (intro exI [of _ e1] exI [of _ w1] exI [of _ ?rs] exI [of _ fo] exI [of _ w2] conjI)
qed

text \<open>
  The claim as stated puts the zero trailer on request 11 and the end of the stream on
  request 12. For a file of 10240 zero bytes, request 11 is already end-of-stream.

  The claim as stated also covers every block size. For a file of \<open>2^30\<close> zero bytes
  followed by the byte 1, with block size \<open>2^30 + 1\<close>, the one block of the file ends in 1
  and the response to request 1 carries a block that ends in 0.
\<close>

theorem request_protocol_counterexample:
  "(case PreProcess (new_Encoder ''f'' 1024) (one_file_world ''f'' (replicate 10240 0)) of
     (err, e1, w1) \<Rightarrow>
       err = None \<and> numBlocks e1 = 10
     \<and> Request e1 11 w1 = ((None, Some EndOfStream), e1, w1))
   \<and> (case PreProcess (new_Encoder ''f'' 1073741825)
              (one_file_world ''f'' (replicate 1073741824 0 @ [1])) of
     (err, e1, w1) \<Rightarrow>
       err = None \<and> numBlocks e1 = 1
     \<and> spec_block (replicate 1073741824 0 @ [1]) 1073741825 0 = replicate 1073741824 0 @ [1]
     \<and> fst (Request e1 1 w1) = (Some ((replicate 1073741824 0 @ [0]) @ zero32), None))"
proof -
  let ?eb = "new_Encoder ''f'' 1073741825"
  let ?cb = "replicate 1073741824 (0 :: byte) @ [1]"
  let ?wb = "one_file_world ''f'' ?cb"
  let ?Z = "take maxRW ?cb @ replicate (length ?cb - maxRW) 0"
  have z: "?Z = replicate 1073741824 0 @ [0]"
    by (simp add: maxRW_def)
  have "\<exists>e1 w1 e2 w2.
       PreProcess ?eb ?wb = (None, e1, w1) \<and> numBlocks e1 = 1
     \<and> Request e1 0 w1 = ((Some (sha256 (?Z @ zero32)), None), e1, w1)
     \<and> Request e1 1 w1 = ((Some (?Z @ zero32), None), e2, w2)
     \<and> verify_stream e1 w1 (sha256 (?Z @ zero32)) [1..numBlocks e1]
         = Inr ([?Z], zero32, e2, w2)"
    by (rule zero_filled_run [where fpath = "''/f''"])
       (simp_all add: example_world_facts maxRW_def maxAlloc_def)
  then obtain eb1 wb1 eb2 wb2 where ppb: "PreProcess ?eb ?wb = (None, eb1, wb1)"
    and nbb: "numBlocks eb1 = 1"
    and r1b: "Request eb1 1 wb1 = ((Some (?Z @ zero32), None), eb2, wb2)"
    by (elim exE conjE) (rule that; assumption)
  have sb: "spec_block ?cb 1073741825 0 = ?cb"
    by (simp add: spec_block_def)
  have b: "case PreProcess ?eb ?wb of
     (err, e1, w1) \<Rightarrow>
       err = None \<and> numBlocks e1 = 1
     \<and> spec_block ?cb 1073741825 0 = ?cb
     \<and> fst (Request e1 1 w1) = (Some ((replicate 1073741824 0 @ [0]) @ zero32), None)"
    unfolding ppb prod.case r1b fst_conv using nbb z sb by simp
  from PreProcess_example [of 1024 "''f''" "replicate 10240 0"] obtain e1 w1 where
    pp: "PreProcess (new_Encoder ''f'' 1024) (one_file_world ''f'' (replicate 10240 0)) = (None, e1, w1)"
    and gi: "getBlockInfo (new_Encoder ''f'' 1024) (int (length (replicate 10240 (0 :: byte))))
          = Inr (numBlocks e1, highestBlockSize e1)"
    by (auto simp: maxRW_def)
  have nb: "numBlocks e1 = 10"
    using gi by (simp add: getBlockInfo_def example_world_facts signed_divide_int_def)
  have "Request e1 11 w1 = ((None, Some EndOfStream), e1, w1)"
    by (intro Request_EndOfStream) (simp_all add: nb)
  then have a: "case PreProcess (new_Encoder ''f'' 1024)
        (one_file_world ''f'' (replicate 10240 0)) of
     (err, e1, w1) \<Rightarrow>
       err = None \<and> numBlocks e1 = 10
     \<and> Request e1 11 w1 = ((None, Some EndOfStream), e1, w1)"
    unfolding pp using nb by simp
  from a b show ?thesis by (rule conjI)
qed

section \<open>Round trip\<close>

lemma chain_ready_block_nonempty:
  assumes cr: "chain_ready content e w" and ne: "content \<noteq> []"
    and i: "1 \<le> i" "i \<le> numBlocks e"
  shows "spec_block content (BlockSize e) (i - 1) \<noteq> []"
proof -
  from cr have bs: "0 < BlockSize e"
    and gi: "getBlockInfo e (int (length content)) = Inr (numBlocks e, highestBlockSize e)"
    by (simp_all add: chain_ready_def)
  have "BlockSize e * (i - 1) \<le> BlockSize e * (numBlocks e - 1)"
    using bs i by (simp add: mult_left_mono)
  with getBlockInfo_facts(7) [OF bs gi ne]
  have "BlockSize e * (i - 1) < int (length content)" by linarith
  then show ?thesis using bs i(1) by (intro spec_block_nonempty) simp_all
qed

lemma length_spec_hash [simp]: "length (spec_hash content bs nb i) = 32"
  by (simp add: spec_hash.simps [of content bs nb i])

lemma verify_run:
  assumes "chain_ready content e w" and "content \<noteq> []"
    and "1 \<le> i" and "i \<le> numBlocks e + 1"
  shows "\<exists>fo w2. verify_stream e w
            (if i = numBlocks e + 1 then zero32
             else spec_hash content (BlockSize e) (numBlocks e) (i - 1))
            [i..numBlocks e]
       = Inr (map (\<lambda>n. spec_block content (BlockSize e) (n - 1)) [i..numBlocks e], zero32,
              e\<lparr>file' := fo\<rparr>, w2)
     \<and> chain_ready content (e\<lparr>file' := fo\<rparr>) w2"
  using assms
proof (induction "nat (numBlocks e + 1 - i)" arbitrary: i e w)
  case 0
  then have "[i..numBlocks e] = []" "i = numBlocks e + 1" by simp_all
  moreover have "e\<lparr>file' := file' e\<rparr> = e" by simp
  ultimately show ?case
    using "0.prems"(1) by (intro exI [of _ "file' e"] exI [of _ w]) simp
next
  case (Suc k)
  let ?bs = "BlockSize e" and ?nb = "numBlocks e"
  from Suc have le: "i \<le> ?nb" by linarith
  then have u: "[i..?nb] = i # [i + 1..?nb]" by (simp add: upto_rec1)
  let ?b = "spec_block content ?bs (i - 1)"
  let ?t = "if i = ?nb then zero32 else spec_hash content ?bs ?nb i"
  from Request_block [OF Suc.prems(1,3) le] obtain f w1 where
    rq: "Request e i w = ((Some (?b @ ?t), None), e\<lparr>file' := Some f\<rparr>, w1)"
    and cr1: "chain_ready content (e\<lparr>file' := Some f\<rparr>) w1"
    by (elim exE conjE) (rule that; assumption)
  let ?e1 = "e\<lparr>file' := Some f\<rparr>"
  have ne: "?b \<noteq> []"
    by (rule chain_ready_block_nonempty [OF Suc.prems(1,2,3) le])
  have lt: "length ?t = 32" by simp
  have tr: "spec_hash content ?bs ?nb (i - 1) = sha256 (?b @ ?t)"
  proof (cases "i = ?nb")
    case True
    then show ?thesis by (simp add: spec_hash.simps [of content ?bs ?nb "?nb - 1"])
  next
    case False
    with le have "\<not> ?nb - 1 \<le> i - 1" by simp
    with False show ?thesis by (simp add: spec_hash.simps [of content ?bs ?nb "i - 1"])
  qed
  have dc: "Decode (spec_hash content ?bs ?nb (i - 1)) (?b @ ?t) = Inr (?b, ?t)"
    unfolding tr by (rule Decode_chain [OF ne lt])
  have k: "k = nat (numBlocks ?e1 + 1 - (i + 1))" using Suc.hyps(2) by simp
  have nx: "?t = (if i + 1 = ?nb + 1 then zero32 else spec_hash content ?bs ?nb (i + 1 - 1))"
    by simp
  have "\<exists>fo w2. verify_stream ?e1 w1
            (if i + 1 = numBlocks ?e1 + 1 then zero32
             else spec_hash content (BlockSize ?e1) (numBlocks ?e1) (i + 1 - 1))
            [i + 1..numBlocks ?e1]
       = Inr (map (\<lambda>n. spec_block content (BlockSize ?e1) (n - 1)) [i + 1..numBlocks ?e1], zero32,
              ?e1\<lparr>file' := fo\<rparr>, w2)
     \<and> chain_ready content (?e1\<lparr>file' := fo\<rparr>) w2"
    using Suc.prems(3) le by (intro Suc.hyps(1) [OF k cr1 Suc.prems(2)]) simp_all
  then have "\<exists>fo w2. verify_stream ?e1 w1 ?t [i + 1..?nb]
       = Inr (map (\<lambda>n. spec_block content ?bs (n - 1)) [i + 1..?nb], zero32, e\<lparr>file' := fo\<rparr>, w2)
     \<and> chain_ready content (e\<lparr>file' := fo\<rparr>) w2"
    by (simp cong: if_cong)
  then obtain fo w2 where
    rest: "verify_stream ?e1 w1 ?t [i + 1..?nb]
       = Inr (map (\<lambda>n. spec_block content ?bs (n - 1)) [i + 1..?nb], zero32, e\<lparr>file' := fo\<rparr>, w2)"
    and cr2: "chain_ready content (e\<lparr>file' := fo\<rparr>) w2"
    by (elim exE conjE) (rule that; assumption)
  have "verify_stream e w (spec_hash content ?bs ?nb (i - 1)) [i..?nb]
       = Inr (map (\<lambda>n. spec_block content ?bs (n - 1)) [i..?nb], zero32, e\<lparr>file' := fo\<rparr>, w2)"
    unfolding u using rq dc rest by simp
  moreover have "i \<noteq> ?nb + 1" using le by simp
  ultimately show ?case using cr2 by auto
qed

lemma verify_stream_append:
  "verify_stream e w h (xs @ ys)
     = (case verify_stream e w h xs of
          Inl err \<Rightarrow> Inl err
        | Inr (bl, h1, e1, w1) \<Rightarrow>
            (case verify_stream e1 w1 h1 ys of
               Inl err \<Rightarrow> Inl err
             | Inr (bl2, h2, e2, w2) \<Rightarrow> Inr (bl @ bl2, h2, e2, w2)))"
  by (induction xs arbitrary: e w h)
     (auto split: prod.splits sum.splits option.splits)

lemma concat_all_blocks:
  assumes cr: "chain_ready content e w"
  shows "concat (map (\<lambda>n. spec_block content (BlockSize e) (n - 1)) [1..numBlocks e]) = content"
proof -
  from cr have bs: "0 < BlockSize e"
    and gi: "getBlockInfo e (int (length content)) = Inr (numBlocks e, highestBlockSize e)"
    by (simp_all add: chain_ready_def)
  note facts = getBlockInfo_facts [OF bs gi]
  have "length content \<le> nat (BlockSize e * numBlocks e)"
    using facts(3) by linarith
  then show ?thesis
    using concat_blocks [OF bs facts(2), of content] by simp
qed

lemma verify_past_end:
  assumes cr: "chain_ready content e w" and ne: "content \<noteq> []"
  shows "verify_stream e w (spec_hash content (BlockSize e) (numBlocks e) 0) [1..numBlocks e + 1]
     = Inl EndOfStream"
proof -
  from cr have bs: "0 < BlockSize e"
    and gi: "getBlockInfo e (int (length content)) = Inr (numBlocks e, highestBlockSize e)"
    by (simp_all add: chain_ready_def)
  have nb: "1 \<le> numBlocks e" by (rule getBlockInfo_facts(6) [OF bs gi ne])
  have u: "[1..numBlocks e + 1] = [1..numBlocks e] @ [numBlocks e + 1]"
    using nb by (simp add: upto_rec2)
  have "\<exists>fo w2. verify_stream e w
            (if 1 = numBlocks e + 1 then zero32
             else spec_hash content (BlockSize e) (numBlocks e) (1 - 1))
            [1..numBlocks e]
       = Inr (map (\<lambda>n. spec_block content (BlockSize e) (n - 1)) [1..numBlocks e], zero32,
              e\<lparr>file' := fo\<rparr>, w2)
     \<and> chain_ready content (e\<lparr>file' := fo\<rparr>) w2"
    using nb by (intro verify_run [OF cr ne]) simp_all
  then obtain fo w2 where
    vs: "verify_stream e w (spec_hash content (BlockSize e) (numBlocks e) 0) [1..numBlocks e]
       = Inr (map (\<lambda>n. spec_block content (BlockSize e) (n - 1)) [1..numBlocks e], zero32,
              e\<lparr>file' := fo\<rparr>, w2)"
    using nb by auto
  have "Request (e\<lparr>file' := fo\<rparr>) (numBlocks e + 1) w2
      = ((None, Some EndOfStream), e\<lparr>file' := fo\<rparr>, w2)"
    using nb by (intro Request_EndOfStream) simp_all
  then have "verify_stream (e\<lparr>file' := fo\<rparr>) w2 zero32 [numBlocks e + 1] = Inl EndOfStream"
    by simp
  then show ?thesis
    unfolding u verify_stream_append vs by simp
qed

text \<open>
  C2, as the code has it. For a non-empty regular file and a block size from 1 to
  \<open>maxRW\<close> (1 GiB, the most one read returns), after PreProcess has built the chain on a
  cache miss: request 0 returns the root hash, and serving requests 1 .. numBlocks in
  order, each response decoded against the hash trusted so far (the root hash first, then
  the suffix returned by the previous Decode), succeeds at every step; the last suffix is
  32 zero bytes, there are numBlocks verified blocks, and their concatenation in order is
  the file. Request numBlocks + 1 returns no bytes and the end-of-stream error, so the
  same run over requests 1 .. numBlocks + 1 stops with that error.
\<close>

theorem round_trip:
  assumes "nodes w (FileName e) = Some (RegularFile content)"
    and "0 < BlockSize e"
    and "abspath w (FileName e) = Some fpath"
    and "cacheDirs w (path_Join ''cache'' (hex_EncodeToString (sha256 (bytes_of fpath)))) = None"
    and "file' e = None"
    and "content \<noteq> []"
    and "BlockSize e \<le> int maxRW"
  shows "\<exists>e1 w1 root blocks fo w2.
       PreProcess e w = (None, e1, w1)
     \<and> Request e1 0 w1 = ((Some root, None), e1, w1)
     \<and> verify_stream e1 w1 root [1..numBlocks e1] = Inr (blocks, zero32, e1\<lparr>file' := fo\<rparr>, w2)
     \<and> length blocks = nat (numBlocks e1)
     \<and> concat blocks = content
     \<and> Request (e1\<lparr>file' := fo\<rparr>) (numBlocks e1 + 1) w2
         = ((None, Some EndOfStream), e1\<lparr>file' := fo\<rparr>, w2)
     \<and> verify_stream e1 w1 root [1..numBlocks e1 + 1] = Inl EndOfStream"
proof -
  from PreProcess_miss [OF assms(1-4) assms(7)] assms(5) obtain e1 w1 where
    pp: "PreProcess e w = (None, e1, w1)" and cr: "chain_ready content e1 w1"
    by (elim exE conjE) (rule that; simp)
  from cr have bs: "0 < BlockSize e1"
    and gi: "getBlockInfo e1 (int (length content)) = Inr (numBlocks e1, highestBlockSize e1)"
    by (simp_all add: chain_ready_def)
  have nb: "1 \<le> numBlocks e1" by (rule getBlockInfo_facts(6) [OF bs gi assms(6)])
  let ?root = "spec_hash content (BlockSize e1) (numBlocks e1) 0"
  let ?blocks = "map (\<lambda>n. spec_block content (BlockSize e1) (n - 1)) [1..numBlocks e1]"
  have r0: "Request e1 0 w1 = ((Some ?root, None), e1, w1)"
    by (rule Request_root [OF cr nb])
  have "\<exists>fo w2. verify_stream e1 w1
            (if 1 = numBlocks e1 + 1 then zero32
             else spec_hash content (BlockSize e1) (numBlocks e1) (1 - 1))
            [1..numBlocks e1]
       = Inr (?blocks, zero32, e1\<lparr>file' := fo\<rparr>, w2)
     \<and> chain_ready content (e1\<lparr>file' := fo\<rparr>) w2"
    using nb by (intro verify_run [OF cr assms(6)]) simp_all
  then obtain fo w2 where
    vs: "verify_stream e1 w1 ?root [1..numBlocks e1] = Inr (?blocks, zero32, e1\<lparr>file' := fo\<rparr>, w2)"
    using nb by auto
  have len: "length ?blocks = nat (numBlocks e1)" using nb by simp
  have cc: "concat ?blocks = content" by (rule concat_all_blocks [OF cr])
  have eos: "Request (e1\<lparr>file' := fo\<rparr>) (numBlocks e1 + 1) w2
      = ((None, Some EndOfStream), e1\<lparr>file' := fo\<rparr>, w2)"
    using nb by (intro Request_EndOfStream) simp_all
  have pe: "verify_stream e1 w1 ?root [1..numBlocks e1 + 1] = Inl EndOfStream"
    by (rule verify_past_end [OF cr assms(6)])
  show ?thesis
    by (rule exI [of _ e1], rule exI [of _ w1], rule exI [of _ ?root], rule exI [of _ ?blocks],
        rule exI [of _ fo], rule exI [of _ w2]) (intro conjI pp r0 vs len cc eos pe)
qed

theorem round_trip_witness:
  "\<exists>e1 w1 root blocks fo w2.
       PreProcess (new_Encoder ''f'' 2) (one_file_world ''f'' [1, 2, 3]) = (None, e1, w1)
     \<and> Request e1 0 w1 = ((Some root, None), e1, w1)
     \<and> verify_stream e1 w1 root [1..numBlocks e1] = Inr (blocks, zero32, e1\<lparr>file' := fo\<rparr>, w2)
     \<and> length blocks = nat (numBlocks e1)
     \<and> concat blocks = [1, 2, 3]
     \<and> Request (e1\<lparr>file' := fo\<rparr>) (numBlocks e1 + 1) w2
         = ((None, Some EndOfStream), e1\<lparr>file' := fo\<rparr>, w2)
     \<and> verify_stream e1 w1 root [1..numBlocks e1 + 1] = Inl EndOfStream"
  by (rule round_trip [where fpath = "''/f''"]) (simp_all add: example_world_facts maxRW_def)

text \<open>
  The claim as stated serves requests up to numBlocks + 1. For the file 1, 2, 3 with
  block size 2, numBlocks is 2 and request 3 returns no bytes and the end-of-stream
  error, so the run over requests 1 .. 3 stops with that error.

  The claim as stated also covers every block size. For a file of \<open>2^30\<close> zero bytes
  followed by the byte 1, with block size \<open>2^30 + 1\<close>, there is one block; PreProcess
  returns without error, every step of the run over request 1 verifies, and the verified
  bytes end in 0 where the file ends in 1.
\<close>

theorem round_trip_counterexample:
  "(case PreProcess (new_Encoder ''f'' 2) (one_file_world ''f'' [1, 2, 3]) of
     (err, e1, w1) \<Rightarrow>
       numBlocks e1 = 2
     \<and> Request e1 (numBlocks e1 + 1) w1 = ((None, Some EndOfStream), e1, w1)
     \<and> (case Request e1 0 w1 of
          ((root, rerr), e2, w2) \<Rightarrow>
            verify_stream e2 w2 (case root of None \<Rightarrow> [] | Some h \<Rightarrow> h) [1..numBlocks e1 + 1]
              = Inl EndOfStream))
   \<and> (case PreProcess (new_Encoder ''f'' 1073741825)
              (one_file_world ''f'' (replicate 1073741824 0 @ [1])) of
     (err, e1, w1) \<Rightarrow>
       err = None \<and> numBlocks e1 = 1
     \<and> (case Request e1 0 w1 of
          ((root, rerr), e2, w2) \<Rightarrow>
            rerr = None
          \<and> (case verify_stream e2 w2 (case root of None \<Rightarrow> [] | Some h \<Rightarrow> h) [1..numBlocks e1] of
                Inl err' \<Rightarrow> False
              | Inr (blocks, h, e3, w3) \<Rightarrow>
                  h = zero32 \<and> concat blocks = replicate 1073741824 0 @ [0])))"
proof -
  let ?eb = "new_Encoder ''f'' 1073741825"
  let ?cb = "replicate 1073741824 (0 :: byte) @ [1]"
  let ?wb = "one_file_world ''f'' ?cb"
  let ?Z = "take maxRW ?cb @ replicate (length ?cb - maxRW) 0"
  have z: "?Z = replicate 1073741824 0 @ [0]"
    by (simp add: maxRW_def)
  have "\<exists>e1 w1 e2 w2.
       PreProcess ?eb ?wb = (None, e1, w1) \<and> numBlocks e1 = 1
     \<and> Request e1 0 w1 = ((Some (sha256 (?Z @ zero32)), None), e1, w1)
     \<and> Request e1 1 w1 = ((Some (?Z @ zero32), None), e2, w2)
     \<and> verify_stream e1 w1 (sha256 (?Z @ zero32)) [1..numBlocks e1]
         = Inr ([?Z], zero32, e2, w2)"
    by (rule zero_filled_run [where fpath = "''/f''"])
       (simp_all add: example_world_facts maxRW_def maxAlloc_def)
  then obtain eb1 wb1 eb2 wb2 where ppb: "PreProcess ?eb ?wb = (None, eb1, wb1)"
    and nbb: "numBlocks eb1 = 1"
    and r0b: "Request eb1 0 wb1 = ((Some (sha256 (?Z @ zero32)), None), eb1, wb1)"
    and vsb: "verify_stream eb1 wb1 (sha256 (?Z @ zero32)) [1..numBlocks eb1]
         = Inr ([?Z], zero32, eb2, wb2)"
    by (elim exE conjE) (rule that; assumption)
  have b: "case PreProcess ?eb ?wb of
     (err, e1, w1) \<Rightarrow>
       err = None \<and> numBlocks e1 = 1
     \<and> (case Request e1 0 w1 of
          ((root, rerr), e2, w2) \<Rightarrow>
            rerr = None
          \<and> (case verify_stream e2 w2 (case root of None \<Rightarrow> [] | Some h \<Rightarrow> h) [1..numBlocks e1] of
                Inl err' \<Rightarrow> False
              | Inr (blocks, h, e3, w3) \<Rightarrow>
                  h = zero32 \<and> concat blocks = replicate 1073741824 0 @ [0]))"
    unfolding ppb prod.case r0b option.case vsb sum.case using nbb z by simp
  let ?e = "new_Encoder ''f'' 2" and ?w = "one_file_world ''f'' [1, 2, 3]"
  have "\<exists>e1 w1. PreProcess ?e ?w = (None, e1, w1)
     \<and> (file' ?e = None \<longrightarrow> chain_ready [1, 2, 3] e1 w1)
     \<and> (\<forall>j. 0 \<le> j \<and> j < numBlocks e1 \<longrightarrow>
           hashFiles w1 (hashFile e1 j)
             = Some (spec_hash [1, 2, 3] (BlockSize ?e) (numBlocks e1) j))
     \<and> FileName e1 = FileName ?e \<and> BlockSize e1 = BlockSize ?e \<and> file' e1 = file' ?e
     \<and> getBlockInfo ?e (int (length [1, 2, 3 :: byte])) = Inr (numBlocks e1, highestBlockSize e1)
     \<and> nodes w1 = nodes ?w \<and> handles w1 = (handles ?w)(nextFd ?w := None)"
    by (rule PreProcess_miss [where fpath = "''/f''"]) (simp_all add: example_world_facts maxRW_def)
  then obtain e1 w1 where pp: "PreProcess ?e ?w = (None, e1, w1)"
    and cr: "chain_ready [1, 2, 3] e1 w1"
    and gi: "getBlockInfo ?e (int (length [1, 2, 3 :: byte])) = Inr (numBlocks e1, highestBlockSize e1)"
    by (elim exE conjE) (rule that; simp add: example_world_facts)
  have nb: "numBlocks e1 = 2"
    using gi by (simp add: getBlockInfo_def example_world_facts signed_divide_int_def)
  have eos: "Request e1 (numBlocks e1 + 1) w1 = ((None, Some EndOfStream), e1, w1)"
    by (intro Request_EndOfStream) (simp_all add: nb)
  have r0: "Request e1 0 w1
     = ((Some (spec_hash [1, 2, 3] (BlockSize e1) (numBlocks e1) 0), None), e1, w1)"
    by (rule Request_root [OF cr]) (simp add: nb)
  have vs: "verify_stream e1 w1 (spec_hash [1, 2, 3] (BlockSize e1) (numBlocks e1) 0)
      [1..numBlocks e1 + 1] = Inl EndOfStream"
    by (rule verify_past_end [OF cr]) simp
  have a: "case PreProcess ?e ?w of
     (err, e1, w1) \<Rightarrow>
       numBlocks e1 = 2
     \<and> Request e1 (numBlocks e1 + 1) w1 = ((None, Some EndOfStream), e1, w1)
     \<and> (case Request e1 0 w1 of
          ((root, rerr), e2, w2) \<Rightarrow>
            verify_stream e2 w2 (case root of None \<Rightarrow> [] | Some h \<Rightarrow> h) [1..numBlocks e1 + 1]
              = Inl EndOfStream)"
    unfolding pp using nb eos r0 vs by simp
  from a b show ?thesis by (rule conjI)
qed

text \<open>
  The empty file, which the round trip above leaves out: with block size 2 it has one
  block of length 0, the response to request 1 is the 32 zero bytes alone, and Decode
  rejects them as too short.
\<close>

lemma empty_file_response_too_short:
  "case PreProcess (new_Encoder ''f'' 2) (one_file_world ''f'' []) of
     (err, e1, w1) \<Rightarrow>
       err = None \<and> numBlocks e1 = 1 \<and> highestBlockSize e1 = 0
     \<and> fst (Request e1 1 w1) = (Some zero32, None)
     \<and> Decode (spec_hash [] 2 1 0) zero32 = Inl TooShort"
proof -
  from PreProcess_example [of 2 "''f''" "[]"] obtain e1 w1 where
    pp: "PreProcess (new_Encoder ''f'' 2) (one_file_world ''f'' []) = (None, e1, w1)"
    and cr: "chain_ready [] e1 w1"
    and gi: "getBlockInfo (new_Encoder ''f'' 2) (int (length ([] :: byte list)))
          = Inr (numBlocks e1, highestBlockSize e1)"
    by (auto simp: maxRW_def)
  have nb: "numBlocks e1 = 1" "highestBlockSize e1 = 0"
    using gi by (simp_all add: getBlockInfo_def example_world_facts
        signed_divide_int_def signed_modulo_int_def)
  from Request_block [OF cr, of 1] nb
  have "fst (Request e1 1 w1) = (Some (spec_block [] (BlockSize e1) 0 @ zero32), None)"
    by auto
  then have rq: "fst (Request e1 1 w1) = (Some zero32, None)"
    by (simp add: spec_block_def)
  have dc: "Decode (spec_hash [] 2 1 0) zero32 = Inl TooShort"
    by (rule Decode_short_candidate) simp
  show ?thesis unfolding pp using nb rq dc by simp
qed

section \<open>The file handle of the encoder\<close>

text \<open>
  C8, what the code does, for a block size from 1 to \<open>maxRW\<close>. After PreProcess on a
  cache miss the encoder holds no handle (the handle PreProcess used is closed again),
  and request 0 opens nothing. The first
  block request opens the file; the requests after it reuse that handle (one descriptor
  is handed out for the whole run). After the end-of-stream response the handle is still
  open: Request never closes it. Only an explicit Close releases it.
\<close>

theorem handle_lifecycle:
  assumes "nodes w (FileName e) = Some (RegularFile content)"
    and "0 < BlockSize e"
    and "abspath w (FileName e) = Some fpath"
    and "cacheDirs w (path_Join ''cache'' (hex_EncodeToString (sha256 (bytes_of fpath)))) = None"
    and "file' e = None"
    and "content \<noteq> [] \<or> 1 < BlockSize e"
    and "BlockSize e \<le> int maxRW"
  shows "\<exists>e1 w1 rs w3 pos.
       PreProcess e w = (None, e1, w1) \<and> file' e1 = None \<and> handles w1 (nextFd w) = None
     \<and> snd (Request e1 0 w1) = (e1, w1)
     \<and> Requests e1 w1 [1..numBlocks e1 + 1] = (rs, e1\<lparr>file' := Some (nextFd w1)\<rparr>, w3)
     \<and> last rs = (None, Some EndOfStream)
     \<and> nextFd w3 = nextFd w1 + 1
     \<and> handles w3 (nextFd w1) = Some (FileName e, pos)
     \<and> Close (e1\<lparr>file' := Some (nextFd w1)\<rparr>) w3
         = (None, e1\<lparr>file' := Some (nextFd w1)\<rparr>, w3\<lparr>handles := (handles w3)(nextFd w1 := None)\<rparr>)"
proof -
  from PreProcess_miss [OF assms(1-4) assms(7)] assms(5) obtain e1 w1 where
    pp: "PreProcess e w = (None, e1, w1)" and cr: "chain_ready content e1 w1"
    and be: "BlockSize e1 = BlockSize e" and fe: "FileName e1 = FileName e"
    and nil: "file' e1 = None"
    and hw: "handles w1 = (handles w)(nextFd w := None)"
    by (elim exE conjE) (rule that; simp)
  let ?nb = "numBlocks e1" and ?f = "nextFd w1"
  from cr have bs: "0 < BlockSize e1"
    and gi: "getBlockInfo e1 (int (length content)) = Inr (?nb, highestBlockSize e1)"
    by (simp_all add: chain_ready_def)
  have nb: "1 \<le> ?nb"
    using getBlockInfo_facts(6,8) [OF bs gi] assms(6) be by auto
  have cl: "handles w1 (nextFd w) = None" using hw by simp
  have r0: "snd (Request e1 0 w1) = (e1, w1)"
    by (simp add: Request_def split: sum.splits)
  let ?resp = "\<lambda>n. (Some (spec_block content (BlockSize e1) (n - 1)
                           @ (if n = ?nb then zero32
                              else spec_hash content (BlockSize e1) ?nb n)),
                     None :: error option)"
  have "\<exists>fo w2. Requests e1 w1 [1..?nb] = (map ?resp [1..?nb], e1\<lparr>file' := fo\<rparr>, w2)
     \<and> chain_ready content (e1\<lparr>file' := fo\<rparr>) w2
     \<and> (file' e1 \<noteq> None \<or> 1 \<le> ?nb \<longrightarrow> fo \<noteq> None)
     \<and> (file' e1 \<noteq> None \<longrightarrow> fo = file' e1 \<and> nextFd w2 = nextFd w1)
     \<and> (file' e1 = None \<and> 1 \<le> ?nb \<longrightarrow> fo = Some ?f \<and> nextFd w2 = ?f + 1)"
    using nb by (intro Requests_run [OF cr]) simp_all
  then obtain fo w2 where
    run: "Requests e1 w1 [1..?nb] = (map ?resp [1..?nb], e1\<lparr>file' := fo\<rparr>, w2)"
    and cr2: "chain_ready content (e1\<lparr>file' := fo\<rparr>) w2"
    and op: "file' e1 = None \<and> 1 \<le> ?nb \<longrightarrow> fo = Some ?f \<and> nextFd w2 = ?f + 1"
    by (elim exE conjE) (rule that; assumption)
  from op nil nb have fo: "fo = Some ?f" and nf: "nextFd w2 = ?f + 1" by simp_all
  let ?e2 = "e1\<lparr>file' := Some ?f\<rparr>"
  from cr2 fo fe obtain pos where h2: "handles w2 ?f = Some (FileName e, pos)"
    by (auto simp: chain_ready_def)
  have eos: "Request ?e2 (?nb + 1) w2 = ((None, Some EndOfStream), ?e2, w2)"
    using nb by (intro Request_EndOfStream) simp_all
  have u: "[1..?nb + 1] = [1..?nb] @ [?nb + 1]"
    using nb by (simp add: upto_rec2 [of 1])
  have all: "Requests e1 w1 [1..?nb + 1]
      = (map ?resp [1..?nb] @ [(None, Some EndOfStream)], ?e2, w2)"
    unfolding u using run eos fo by (simp add: Requests_append)
  have la: "last (map ?resp [1..?nb] @ [(None, Some EndOfStream)]) = (None, Some EndOfStream)"
    by simp
  have cs: "Close ?e2 w2 = (None, ?e2, w2\<lparr>handles := (handles w2)(?f := None)\<rparr>)"
    using h2 by (simp add: Close_def file_Close_def)
  show ?thesis
    by (rule exI [of _ e1], rule exI [of _ w1],
        rule exI [of _ "map ?resp [1..?nb] @ [(None, Some EndOfStream)]"],
        rule exI [of _ w2], rule exI [of _ pos])
       (intro conjI pp nil cl r0 all la nf h2 cs)
qed

theorem handle_lifecycle_witness:
  "\<exists>e1 w1 rs w3 pos.
       PreProcess (new_Encoder ''f'' 2) (one_file_world ''f'' [1, 2, 3]) = (None, e1, w1)
     \<and> file' e1 = None
     \<and> Requests e1 w1 [1..numBlocks e1 + 1] = (rs, e1\<lparr>file' := Some (nextFd w1)\<rparr>, w3)
     \<and> last rs = (None, Some EndOfStream)
     \<and> handles w3 (nextFd w1) = Some (''f'', pos)"
proof -
  let ?e = "new_Encoder ''f'' 2" and ?w = "one_file_world ''f'' [1, 2, 3]"
  have "\<exists>e1 w1 rs w3 pos.
       PreProcess ?e ?w = (None, e1, w1) \<and> file' e1 = None \<and> handles w1 (nextFd ?w) = None
     \<and> snd (Request e1 0 w1) = (e1, w1)
     \<and> Requests e1 w1 [1..numBlocks e1 + 1] = (rs, e1\<lparr>file' := Some (nextFd w1)\<rparr>, w3)
     \<and> last rs = (None, Some EndOfStream)
     \<and> nextFd w3 = nextFd w1 + 1
     \<and> handles w3 (nextFd w1) = Some (FileName ?e, pos)
     \<and> Close (e1\<lparr>file' := Some (nextFd w1)\<rparr>) w3
         = (None, e1\<lparr>file' := Some (nextFd w1)\<rparr>, w3\<lparr>handles := (handles w3)(nextFd w1 := None)\<rparr>)"
    by (rule handle_lifecycle [where fpath = "''/f''" and content = "[1, 2, 3]"])
       (simp_all add: example_world_facts maxRW_def)
  then show ?thesis
    by (simp add: example_world_facts) blast
qed

end
